theory Spec2Isabelle
  imports Main
begin

section \<open>The data model\<close>

text \<open>
  The module \<^verbatim>\<open>ndarray_listener.py\<close> defines one class, a subclass of NumPy's
  \<^verbatim>\<open>ndarray\<close> with an instance attribute \<^verbatim>\<open>_listeners\<close> that holds a Python list of
  callables.  Python objects are references, so the model keeps an explicit store with
  three kinds of cells: data buffers, list objects and array instances.  A reference is
  the position of the cell in its store; allocation appends a cell.

  The fragment of NumPy that is modelled has zero-dimensional arrays and one-dimensional
  arrays; an array instance views a selection of positions of a buffer, so that a slice
  shares the memory of the array it was taken from.
\<close>

datatype error = IndexError | ValueError | TypeError | AttributeError

text \<open>
  A listener is whatever was handed to \<^verbatim>\<open>talk_to\<close>.  \<open>Watcher k\<close> is a callable in the
  manner of the \<^verbatim>\<open>Watcher\<close> class of the tests and of the doctest: calling it records
  the argument and does nothing else.  \<open>NotCallable k\<close> is an object without
  \<^verbatim>\<open>__call__\<close>; calling it raises \<^verbatim>\<open>TypeError\<close>.
\<close>

datatype listener = Watcher nat | NotCallable nat

text \<open>A plain array value (the result of \<^verbatim>\<open>asarray\<close>): zero- or one-dimensional.\<close>

datatype 'e nd = Zero 'e | One "'e list"

text \<open>
  A value stored in an attribute: a reference to a list object, or some other object
  that can be neither iterated nor called (a number, for one).
\<close>

datatype pyval = ListRef nat | Opaque nat

datatype view = At nat | Span "nat list"

record obj =
  buf :: nat
  sel :: view
  dict :: "(string \<times> pyval) list"

text \<open>
  The setters that \<^verbatim>\<open>ndarray\<close> and \<^verbatim>\<open>object\<close> provide for the attribute names they
  reserve are code of NumPy and of the interpreter.  The store holds them as a table:
  from the name, the value, the instance and the buffers to an error, or to the
  instance and the buffers after the assignment.
\<close>

type_synonym 'e setter =
  "string \<Rightarrow> pyval \<Rightarrow> obj \<Rightarrow> 'e list list \<Rightarrow> error + obj \<times> 'e list list"

record 'e heap =
  bufs :: "'e list list"
  lsts :: "listener list list"
  objs :: "obj list"
  calls :: "(listener \<times> 'e nd) list"
  setters :: "'e setter"

text \<open>
  The table of the example stores refuses whatever it is handed; no example assigns to
  a reserved name.
\<close>

definition refuse_all :: "'e setter" where
  "refuse_all name v ob bs = Inl AttributeError"

definition empty_heap :: "'e heap" where
  "empty_heap = \<lparr>bufs = [], lsts = [], objs = [], calls = [], setters = refuse_all\<rparr>"

text \<open>Operations run on the store and either return a value or raise.\<close>

definition seq :: "('s \<Rightarrow> (error + 'a) \<times> 's) \<Rightarrow> ('a \<Rightarrow> 's \<Rightarrow> (error + 'b) \<times> 's)
    \<Rightarrow> 's \<Rightarrow> (error + 'b) \<times> 's" where
  "seq m f s = (case m s of (Inl e, s') \<Rightarrow> (Inl e, s') | (Inr x, s') \<Rightarrow> f x s')"

definition ret :: "'a \<Rightarrow> 's \<Rightarrow> (error + 'a) \<times> 's" where
  "ret x s = (Inr x, s)"

definition new_list :: "'e heap \<Rightarrow> nat \<times> 'e heap" where
  "new_list h = (length (lsts h), h\<lparr>lsts := lsts h @ [[]]\<rparr>)"

definition new_buf :: "'e list \<Rightarrow> 'e heap \<Rightarrow> nat \<times> 'e heap" where
  "new_buf xs h = (length (bufs h), h\<lparr>bufs := bufs h @ [xs]\<rparr>)"

definition new_obj :: "obj \<Rightarrow> 'e heap \<Rightarrow> nat \<times> 'e heap" where
  "new_obj ob h = (length (objs h), h\<lparr>objs := objs h @ [ob]\<rparr>)"

definition getattr :: "nat \<Rightarrow> string \<Rightarrow> 'e heap \<Rightarrow> pyval option" where
  "getattr a name h = map_of (dict (objs h ! a)) name"

text \<open>
  The elements that an instance views, read from the buffers, as a plain array;
  \<^verbatim>\<open>asarray(self)\<close> is this array for the current store.
\<close>

definition nd_read :: "'e list list \<Rightarrow> obj \<Rightarrow> 'e nd" where
  "nd_read bs ob = (case sel ob of
      At p \<Rightarrow> Zero (bs ! buf ob ! p)
    | Span ps \<Rightarrow> One (map (\<lambda>p. bs ! buf ob ! p) ps))"

definition asarray :: "'e heap \<Rightarrow> obj \<Rightarrow> 'e nd" where
  "asarray h ob = nd_read (bufs h) ob"

fun elems :: "'e nd \<Rightarrow> 'e list" where
  "elems (Zero x) = [x]"
| "elems (One xs) = xs"

definition contents :: "'e heap \<Rightarrow> obj \<Rightarrow> 'e list" where
  "contents h ob = elems (asarray h ob)"

section \<open>Notification\<close>

text \<open>
  \<^verbatim>\<open>
  def __notify(self):
      for l in self._listeners:
          l(asarray(self))
  \<close>
\<close>

fun call_listener :: "listener \<Rightarrow> 'e nd \<Rightarrow> 'e heap \<Rightarrow> (error + unit) \<times> 'e heap" where
  "call_listener (Watcher k) x h = (Inr (), h\<lparr>calls := calls h @ [(Watcher k, x)]\<rparr>)"
| "call_listener (NotCallable k) x h = (Inl TypeError, h)"

fun notify_loop :: "listener list \<Rightarrow> nat \<Rightarrow> 'e heap \<Rightarrow> (error + unit) \<times> 'e heap" where
  "notify_loop [] a h = (Inr (), h)"
| "notify_loop (l # ls) a h =
     seq (call_listener l (asarray h (objs h ! a))) (\<lambda>_. notify_loop ls a) h"

definition notify :: "nat \<Rightarrow> 'e heap \<Rightarrow> (error + unit) \<times> 'e heap" where
  "notify a h = (case getattr a ''_listeners'' h of
      None \<Rightarrow> (Inl AttributeError, h)
    | Some (Opaque _) \<Rightarrow> (Inl TypeError, h)
    | Some (ListRef r) \<Rightarrow> notify_loop (lsts h ! r) a h)"

section \<open>Attribute assignment\<close>

text \<open>
  The inherited \<^verbatim>\<open>ndarray.__setattr__\<close> is the attribute assignment of Python objects.
  A name that the class reserves goes to the setter of the class: these are the
  attributes of \<^verbatim>\<open>ndarray\<close>, writable (\<^verbatim>\<open>shape\<close>, \<^verbatim>\<open>flat\<close>, \<^verbatim>\<open>real\<close>, ...) or not
  (\<^verbatim>\<open>ndim\<close>, \<^verbatim>\<open>size\<close>, ...), and the names with two leading and two trailing underscores
  (\<^verbatim>\<open>__class__\<close>, \<^verbatim>\<open>__dict__\<close>, ...).  The outcome is what the table of the store gives:
  an error and no change, or the instance and the buffers after the assignment.  Every
  other name, \<^verbatim>\<open>_listeners\<close> and the names of methods among them, becomes an entry of
  the instance dictionary.
\<close>

definition nd_descriptors :: "string list" where
  "nd_descriptors = [''shape'', ''dtype'', ''strides'', ''data'', ''flat'', ''real'',
     ''imag'', ''ndim'', ''size'', ''itemsize'', ''nbytes'', ''base'', ''flags'',
     ''ctypes'', ''T'', ''mT'', ''device'']"

definition nd_reserved :: "string \<Rightarrow> bool" where
  "nd_reserved name \<longleftrightarrow>
     name \<in> set nd_descriptors \<or> (take 2 name = ''__'' \<and> take 2 (rev name) = ''__'')"

definition nd_setattr :: "string \<Rightarrow> pyval \<Rightarrow> nat \<Rightarrow> 'e heap \<Rightarrow> error + 'e heap" where
  "nd_setattr name v a h =
     (if nd_reserved name then
        (case setters h name v (objs h ! a) (bufs h) of
           Inl e \<Rightarrow> Inl e
         | Inr (ob, bs) \<Rightarrow> Inr (h\<lparr>objs := (objs h)[a := ob], bufs := bs\<rparr>))
      else Inr (h\<lparr>objs := (objs h)[a := (objs h ! a)
             \<lparr>dict := (name, v) # filter (\<lambda>kv. fst kv \<noteq> name) (dict (objs h ! a))\<rparr>]\<rparr>))"

text \<open>Calling a stored value without arguments: no value of the model can be called.\<close>

fun call_stored :: "pyval \<Rightarrow> 'e heap \<Rightarrow> (error + unit) \<times> 'e heap" where
  "call_stored (ListRef r) h = (Inl TypeError, h)"
| "call_stored (Opaque k) h = (Inl TypeError, h)"

text \<open>
  \<^verbatim>\<open>
  def __setattr__(self, *args, **kwargs):
      super(ndarray_listener, self).__setattr__(*args, **kwargs)
      if len(args) > 0 and args[0] == '_listeners':
          return
      self.__notify()
  \<close>
  An assignment \<^verbatim>\<open>a.name = v\<close> calls it with the two positional arguments.  Inside the
  class, \<^verbatim>\<open>self.__notify()\<close> stands for \<^verbatim>\<open>self._ndarray_listener__notify()\<close>: the name is
  looked up on the instance, where an entry of the instance dictionary comes before
  the method of the class, and what is found is called.  The assignment that has just
  been made may have put such an entry there.
\<close>

definition setattr :: "nat \<Rightarrow> string \<Rightarrow> pyval \<Rightarrow> 'e heap \<Rightarrow> (error + unit) \<times> 'e heap" where
  "setattr a name v h = (case nd_setattr name v a h of
      Inl e \<Rightarrow> (Inl e, h)
    | Inr h1 \<Rightarrow>
        if name = ''_listeners'' then (Inr (), h1)
        else (case getattr a ''_ndarray_listener__notify'' h1 of
            None \<Rightarrow> notify a h1
          | Some f \<Rightarrow> call_stored f h1))"

section \<open>Construction and derivation\<close>

text \<open>
  \<^verbatim>\<open>
  def __array_finalize__(self, obj):
      if obj is None:
          return
      self._listeners = getattr(obj, '_listeners', [])
  \<close>
  The default \<^verbatim>\<open>[]\<close> is an argument of \<^verbatim>\<open>getattr\<close>, so the list object is created
  whether or not it is used.  The assignment goes through \<^verbatim>\<open>__setattr__\<close> above.
\<close>

definition array_finalize :: "nat \<Rightarrow> obj option \<Rightarrow> 'e heap \<Rightarrow> (error + unit) \<times> 'e heap" where
  "array_finalize self parent h = (case parent of
      None \<Rightarrow> (Inr (), h)
    | Some p \<Rightarrow> (let (r, h1) = new_list h in
        setattr self ''_listeners''
          (case map_of (dict p) ''_listeners'' of None \<Rightarrow> ListRef r | Some v \<Rightarrow> v) h1))"

text \<open>
  NumPy creating an instance of the subclass from a parent array (a view, a slice, a
  copy): the new instance has an empty dictionary and is handed to
  \<^verbatim>\<open>__array_finalize__\<close> together with the parent.
\<close>

definition nd_derive :: "nat \<Rightarrow> view \<Rightarrow> obj option \<Rightarrow> 'e heap \<Rightarrow> (error + nat) \<times> 'e heap" where
  "nd_derive b s parent h = (let (v, h1) = new_obj \<lparr>buf = b, sel = s, dict = []\<rparr> h in
     seq (array_finalize v parent) (\<lambda>_. ret v) h1)"

text \<open>
  The argument of the constructor: a number, a sequence of numbers, or an existing
  instance of the class.
\<close>

datatype 'e input = Num 'e | Seq "'e list" | Ref nat

text \<open>
  \<^verbatim>\<open>asarray(input_array)\<close>: a number or a sequence gets a buffer of its own; an instance
  of the subclass is viewed as a base-class array on the same memory, which has no
  instance dictionary.
\<close>

definition nd_asarray :: "'e input \<Rightarrow> 'e heap \<Rightarrow> obj \<times> 'e heap" where
  "nd_asarray inp h = (case inp of
      Num x \<Rightarrow> (let (b, h1) = new_buf [x] h in (\<lparr>buf = b, sel = At 0, dict = []\<rparr>, h1))
    | Seq xs \<Rightarrow> (let (b, h1) = new_buf xs h in
        (\<lparr>buf = b, sel = Span [0..<length xs], dict = []\<rparr>, h1))
    | Ref a \<Rightarrow> (\<lparr>buf = buf (objs h ! a), sel = sel (objs h ! a), dict = []\<rparr>, h))"

definition input_listeners :: "'e input \<Rightarrow> 'e heap \<Rightarrow> pyval option" where
  "input_listeners inp h = (case inp of Ref a \<Rightarrow> getattr a ''_listeners'' h | _ \<Rightarrow> None)"

text \<open>
  \<^verbatim>\<open>
  def __new__(cls, input_array):
      obj = asarray(input_array).view(cls)
      if hasattr(input_array, '_listeners'):
          obj._listeners = input_array._listeners
      else:
          obj._listeners = []
      return obj
  \<close>
\<close>

definition ndl_new :: "'e input \<Rightarrow> 'e heap \<Rightarrow> (error + nat) \<times> 'e heap" where
  "ndl_new inp h = (let (plain, h1) = nd_asarray inp h in
     seq (nd_derive (buf plain) (sel plain) (Some plain))
       (\<lambda>ob. seq (\<lambda>h2. case input_listeners inp h2 of
                     Some v \<Rightarrow> setattr ob ''_listeners'' v h2
                   | None \<Rightarrow> (let (r, h3) = new_list h2 in
                       setattr ob ''_listeners'' (ListRef r) h3))
                (\<lambda>_. ret ob)) h1)"

text \<open>
  The inherited \<^verbatim>\<open>ndarray.copy\<close>: the data is copied to a new buffer and the new instance
  is finalized with the original as parent.
\<close>

definition copy :: "nat \<Rightarrow> 'e heap \<Rightarrow> (error + nat) \<times> 'e heap" where
  "copy a h = (let ob = objs h ! a; (b, h1) = new_buf (contents h ob) h in
     nd_derive b (case sel ob of At _ \<Rightarrow> At 0 | Span ps \<Rightarrow> Span [0..<length ps]) (Some ob) h1)"

section \<open>Subscription\<close>

text \<open>
  \<^verbatim>\<open>
  def talk_to(self, me):
      self._listeners.append(me)
  \<close>
\<close>

definition talk_to :: "nat \<Rightarrow> listener \<Rightarrow> 'e heap \<Rightarrow> (error + unit) \<times> 'e heap" where
  "talk_to a me h = (case getattr a ''_listeners'' h of
      Some (ListRef r) \<Rightarrow> (Inr (), h\<lparr>lsts := (lsts h)[r := lsts h ! r @ [me]]\<rparr>)
    | _ \<Rightarrow> (Inl AttributeError, h))"

section \<open>Indexing\<close>

datatype index = Idx int | Slice "int option" "int option"

definition norm_index :: "nat \<Rightarrow> int \<Rightarrow> error + nat" where
  "norm_index n i = (let j = (if i < 0 then i + int n else i) in
     if 0 \<le> j \<and> j < int n then Inr (nat j) else Inl IndexError)"

definition slice_bound :: "nat \<Rightarrow> int \<Rightarrow> nat" where
  "slice_bound n i = (let j = (if i < 0 then i + int n else i) in
     if j < 0 then 0 else if int n < j then n else nat j)"

definition slice_sel :: "int option \<Rightarrow> int option \<Rightarrow> nat list \<Rightarrow> nat list" where
  "slice_sel lo hi ps = (let n = length ps;
       s = (case lo of None \<Rightarrow> 0 | Some i \<Rightarrow> slice_bound n i);
       e = (case hi of None \<Rightarrow> n | Some i \<Rightarrow> slice_bound n i)
     in take (e - s) (drop s ps))"

text \<open>
  The inherited \<^verbatim>\<open>ndarray.__getitem__\<close>: an integer index on a one-dimensional array
  gives a NumPy scalar, which is not an array instance; a slice gives a new instance
  of the subclass on the same memory; a zero-dimensional array accepts neither.
\<close>

datatype 'e item = Scalar 'e | Derived nat

definition nd_getitem :: "nat \<Rightarrow> index \<Rightarrow> 'e heap \<Rightarrow> (error + 'e item) \<times> 'e heap" where
  "nd_getitem a idx h = (let ob = objs h ! a in case sel ob of
      At p \<Rightarrow> (Inl IndexError, h)
    | Span ps \<Rightarrow> (case idx of
        Idx i \<Rightarrow> (case norm_index (length ps) i of
            Inl e \<Rightarrow> (Inl e, h)
          | Inr j \<Rightarrow> (Inr (Scalar (bufs h ! buf ob ! (ps ! j))), h))
      | Slice lo hi \<Rightarrow>
          seq (nd_derive (buf ob) (Span (slice_sel lo hi ps)) (Some ob))
            (\<lambda>v. ret (Derived v)) h))"

fun talk_all :: "listener list \<Rightarrow> nat \<Rightarrow> 'e heap \<Rightarrow> (error + unit) \<times> 'e heap" where
  "talk_all [] v h = (Inr (), h)"
| "talk_all (l # ls) v h = seq (talk_to v l) (\<lambda>_. talk_all ls v) h"

text \<open>
  \<^verbatim>\<open>
  def __getitem__(self, *args, **kwargs):
      v = super(ndarray_listener, self).__getitem__(*args, **kwargs)
      if isinstance(v, ndarray_listener):
          return v

      v = ndarray_listener(v)
      for l in self._listeners:
          v.talk_to(l)
      return v
  \<close>
  The loop runs over the list of \<^verbatim>\<open>self\<close> while \<^verbatim>\<open>talk_to\<close> appends to the list of
  \<^verbatim>\<open>v\<close>, which the constructor has just created.
\<close>

definition getitem :: "nat \<Rightarrow> index \<Rightarrow> 'e heap \<Rightarrow> (error + nat) \<times> 'e heap" where
  "getitem a idx h = seq (nd_getitem a idx) (\<lambda>it. case it of
      Derived v \<Rightarrow> ret v
    | Scalar x \<Rightarrow> seq (ndl_new (Num x)) (\<lambda>v h2. case getattr a ''_listeners'' h2 of
          None \<Rightarrow> (Inl AttributeError, h2)
        | Some (Opaque _) \<Rightarrow> (Inl TypeError, h2)
        | Some (ListRef r) \<Rightarrow> seq (talk_all (lsts h2 ! r) v) (\<lambda>_. ret v) h2)) h"

section \<open>Writes\<close>

fun write_all :: "nat list \<Rightarrow> 'e list \<Rightarrow> 'e list \<Rightarrow> 'e list" where
  "write_all [] vs b = b"
| "write_all (p # ps) [] b = b"
| "write_all (p # ps) (v # vs) b = write_all ps vs (b[p := v])"

text \<open>
  The inherited \<^verbatim>\<open>ndarray.__setitem__\<close>, on the buffers: an integer index takes one
  value; a slice takes one value for all its positions or as many values as it has
  positions.
\<close>

definition nd_setitem :: "index \<Rightarrow> 'e nd \<Rightarrow> obj \<Rightarrow> 'e list list \<Rightarrow> error + 'e list list" where
  "nd_setitem idx val ob bs = (case sel ob of
      At p \<Rightarrow> Inl IndexError
    | Span ps \<Rightarrow> (case idx of
        Idx i \<Rightarrow> (case norm_index (length ps) i of
            Inl e \<Rightarrow> Inl e
          | Inr j \<Rightarrow> (case val of
              Zero v \<Rightarrow> Inr (bs[buf ob := (bs ! buf ob)[ps ! j := v]])
            | One vs \<Rightarrow> (case vs of
                [v] \<Rightarrow> Inr (bs[buf ob := (bs ! buf ob)[ps ! j := v]])
              | _ \<Rightarrow> Inl ValueError)))
      | Slice lo hi \<Rightarrow> (let qs = slice_sel lo hi ps in case val of
            Zero v \<Rightarrow> Inr (bs[buf ob := write_all qs (replicate (length qs) v) (bs ! buf ob)])
          | One vs \<Rightarrow>
              if length vs = length qs then Inr (bs[buf ob := write_all qs vs (bs ! buf ob)])
              else (case vs of
                  [v] \<Rightarrow> Inr (bs[buf ob := write_all qs (replicate (length qs) v) (bs ! buf ob)])
                | _ \<Rightarrow> Inl ValueError))))"

text \<open>
  \<^verbatim>\<open>
  def __setitem__(self, *args, **kwargs):
      super(ndarray_listener, self).__setitem__(*args, **kwargs)
      self.__notify()
  \<close>
\<close>

definition setitem :: "nat \<Rightarrow> index \<Rightarrow> 'e nd \<Rightarrow> 'e heap \<Rightarrow> (error + unit) \<times> 'e heap" where
  "setitem a idx val h = (case nd_setitem idx val (objs h ! a) (bufs h) of
      Inl e \<Rightarrow> (Inl e, h)
    | Inr bs \<Rightarrow> notify a (h\<lparr>bufs := bs\<rparr>))"

text \<open>
  \<^verbatim>\<open>
  def __setslice__(self, *args, **kwargs):
      super(ndarray_listener, self).__setslice__(*args, **kwargs)
      self.__notify()
  \<close>
  Python 2 calls it for \<^verbatim>\<open>a[i:j] = val\<close> with both bounds given as integers; Python 3
  sends every slice assignment to \<^verbatim>\<open>__setitem__\<close>.
\<close>

definition setslice :: "nat \<Rightarrow> int \<Rightarrow> int \<Rightarrow> 'e nd \<Rightarrow> 'e heap \<Rightarrow> (error + unit) \<times> 'e heap" where
  "setslice a i j val h =
     (case nd_setitem (Slice (Some i) (Some j)) val (objs h ! a) (bufs h) of
        Inl e \<Rightarrow> (Inl e, h)
      | Inr bs \<Rightarrow> notify a (h\<lparr>bufs := bs\<rparr>))"

text \<open>
  The inherited \<^verbatim>\<open>ndarray.itemset\<close>, on the buffers: with the value alone the array
  must have exactly one element; with one position before the value, the position is a
  flat index; more positions than dimensions are an error.
\<close>

definition nd_itemset :: "int list \<Rightarrow> 'e \<Rightarrow> obj \<Rightarrow> 'e list list \<Rightarrow> error + 'e list list" where
  "nd_itemset pos v ob bs = (let ps = (case sel ob of At p \<Rightarrow> [p] | Span qs \<Rightarrow> qs) in
     case pos of
       [] \<Rightarrow> (case ps of [p] \<Rightarrow> Inr (bs[buf ob := (bs ! buf ob)[p := v]]) | _ \<Rightarrow> Inl ValueError)
     | [i] \<Rightarrow> (case norm_index (length ps) i of
           Inl e \<Rightarrow> Inl e
         | Inr j \<Rightarrow> Inr (bs[buf ob := (bs ! buf ob)[ps ! j := v]]))
     | _ \<Rightarrow> Inl ValueError)"

text \<open>
  \<^verbatim>\<open>
  def itemset(self, *args, **kwargs):
      super(ndarray_listener, self).itemset(*args, **kwargs)
      self.__notify()
  \<close>
\<close>

definition itemset :: "nat \<Rightarrow> int list \<Rightarrow> 'e \<Rightarrow> 'e heap \<Rightarrow> (error + unit) \<times> 'e heap" where
  "itemset a pos v h = (case nd_itemset pos v (objs h ! a) (bufs h) of
      Inl e \<Rightarrow> (Inl e, h)
    | Inr bs \<Rightarrow> notify a (h\<lparr>bufs := bs\<rparr>))"

section \<open>Auxiliary notions for the statements\<close>

text \<open>Whether calling a listener succeeds.\<close>

fun callable :: "listener \<Rightarrow> bool" where
  "callable (Watcher k) = True"
| "callable (NotCallable k) = False"

text \<open>
  An instance is well formed in a store when its buffer exists and the positions it
  views are positions of that buffer, each viewed once.
\<close>

definition obj_ok :: "'e heap \<Rightarrow> obj \<Rightarrow> bool" where
  "obj_ok h ob \<longleftrightarrow> buf ob < length (bufs h) \<and> (case sel ob of
      At p \<Rightarrow> p < length (bufs h ! buf ob)
    | Span ps \<Rightarrow> distinct ps \<and> list_all (\<lambda>p. p < length (bufs h ! buf ob)) ps)"

text \<open>
  A store for examples: \<^verbatim>\<open>a = ndarray_listener([1, 2, 3]); a.talk_to(w0)\<close>.
\<close>

definition demo_heap :: "int heap" where
  "demo_heap = \<lparr>bufs = [[1, 2, 3]], lsts = [[], [Watcher 0]],
     objs = [\<lparr>buf = 0, sel = Span [0, 1, 2], dict = [(''_listeners'', ListRef 1)]\<rparr>],
     calls = [], setters = refuse_all\<rparr>"

text \<open>
  Two statements in a row, \<^verbatim>\<open>x.talk_to(l); y[idx] = val\<close>, as they occur in the
  scenarios of the specification.
\<close>

definition subscribe_write ::
    "nat \<Rightarrow> listener \<Rightarrow> nat \<Rightarrow> index \<Rightarrow> 'e nd \<Rightarrow> 'e heap \<Rightarrow> (error + unit) \<times> 'e heap" where
  "subscribe_write x l y idx val = seq (talk_to x l) (\<lambda>_. setitem y idx val)"

text \<open>
  The example store after \<^verbatim>\<open>d = a[1:]\<close>, and after \<^verbatim>\<open>b = a.copy()\<close>.
\<close>

definition demo_view :: "int heap" where
  "demo_view = \<lparr>bufs = [[1, 2, 3]], lsts = [[], [Watcher 0], []],
     objs = [\<lparr>buf = 0, sel = Span [0, 1, 2], dict = [(''_listeners'', ListRef 1)]\<rparr>,
             \<lparr>buf = 0, sel = Span [1, 2], dict = [(''_listeners'', ListRef 1)]\<rparr>],
     calls = [], setters = refuse_all\<rparr>"

definition demo_copy :: "int heap" where
  "demo_copy = \<lparr>bufs = [[1, 2, 3], [1, 2, 3]], lsts = [[], [Watcher 0], []],
     objs = [\<lparr>buf = 0, sel = Span [0, 1, 2], dict = [(''_listeners'', ListRef 1)]\<rparr>,
             \<lparr>buf = 1, sel = Span [0, 1, 2], dict = [(''_listeners'', ListRef 1)]\<rparr>],
     calls = [], setters = refuse_all\<rparr>"

text \<open>The example store after \<^verbatim>\<open>x = a[-1]\<close>.\<close>

definition demo_item :: "int heap" where
  "demo_item = \<lparr>bufs = [[1, 2, 3], [3]], lsts = [[], [Watcher 0], [], [Watcher 0]],
     objs = [\<lparr>buf = 0, sel = Span [0, 1, 2], dict = [(''_listeners'', ListRef 1)]\<rparr>,
             \<lparr>buf = 1, sel = At 0, dict = [(''_listeners'', ListRef 3)]\<rparr>],
     calls = [], setters = refuse_all\<rparr>"

text \<open>
  The first scenario of the doctest in the class:
  \<^verbatim>\<open>
  scalar = ndarray_listener(-0.5)
  scalar.talk_to(you0)
  scalar.itemset(-1.0)      # First guy called with -1.0
  s0 = scalar.copy()
  s0.itemset(-0.5)          # First guy called with -0.5
  s0.talk_to(you1)
  scalar.itemset(0.0)       # First guy called with 0.0
                            # Second guy called with 0.0
  \<close>
  with the integers 5, 1, 5 and 0 in the place of the four numbers.
\<close>

definition doctest_scalar :: "int heap \<Rightarrow> (error + unit) \<times> int heap" where
  "doctest_scalar =
     seq (ndl_new (Num 5)) (\<lambda>scalar.
     seq (talk_to scalar (Watcher 0)) (\<lambda>_.
     seq (itemset scalar [] 1) (\<lambda>_.
     seq (copy scalar) (\<lambda>s0.
     seq (itemset s0 [] 5) (\<lambda>_.
     seq (talk_to s0 (Watcher 1)) (\<lambda>_.
     itemset scalar [] 0))))))"

section \<open>Basic facts about the operations\<close>

lemma getattr_frame [simp]:
  "getattr a n (h\<lparr>bufs := bs\<rparr>) = getattr a n h"
  "getattr a n (h\<lparr>lsts := ls\<rparr>) = getattr a n h"
  "getattr a n (h\<lparr>calls := cs\<rparr>) = getattr a n h"
  by (simp_all add: getattr_def)

lemma asarray_frame [simp]:
  "asarray (h\<lparr>lsts := ls\<rparr>) ob = asarray h ob"
  "asarray (h\<lparr>calls := cs\<rparr>) ob = asarray h ob"
  "asarray (h\<lparr>objs := os\<rparr>) ob = asarray h ob"
  by (simp_all add: asarray_def)

lemma contents_frame [simp]:
  "contents (h\<lparr>lsts := ls\<rparr>) ob = contents h ob"
  "contents (h\<lparr>calls := cs\<rparr>) ob = contents h ob"
  "contents (h\<lparr>objs := os\<rparr>) ob = contents h ob"
  by (simp_all add: contents_def)

lemma notify_loop_eq:
  "notify_loop ls a h =
     (if list_all callable ls then Inr () else Inl TypeError,
      h\<lparr>calls := calls h @ map (\<lambda>l. (l, asarray h (objs h ! a))) (takeWhile callable ls)\<rparr>)"
proof (induction ls arbitrary: h)
  case Nil
  show ?case by simp
next
  case (Cons l ls)
  show ?case
  proof (cases l)
    case (Watcher k)
    then show ?thesis by (simp add: seq_def Cons.IH)
  next
    case (NotCallable k)
    then show ?thesis by (simp add: seq_def)
  qed
qed

lemma notify_eq:
  assumes "getattr a ''_listeners'' h = Some (ListRef r)"
  shows "notify a h =
     (if list_all callable (lsts h ! r) then Inr () else Inl TypeError,
      h\<lparr>calls := calls h @
         map (\<lambda>l. (l, asarray h (objs h ! a))) (takeWhile callable (lsts h ! r))\<rparr>)"
  using assms by (simp add: notify_def notify_loop_eq)

lemma talk_to_eq:
  assumes "getattr a ''_listeners'' h = Some (ListRef r)"
  shows "talk_to a me h = (Inr (), h\<lparr>lsts := (lsts h)[r := lsts h ! r @ [me]]\<rparr>)"
  using assms by (simp add: talk_to_def)

lemma talk_all_eq:
  assumes "getattr v ''_listeners'' h = Some (ListRef r)" and "r < length (lsts h)"
  shows "talk_all ls v h = (Inr (), h\<lparr>lsts := (lsts h)[r := lsts h ! r @ ls]\<rparr>)"
  using assms
proof (induction ls arbitrary: h)
  case Nil
  then show ?case by simp
next
  case (Cons l ls)
  then show ?case by (simp add: seq_def talk_to_eq)
qed

lemma setattr_listeners_eq:
  "setattr a ''_listeners'' v h =
     (Inr (), h\<lparr>objs := (objs h)[a := (objs h ! a)
         \<lparr>dict := (''_listeners'', v) # filter (\<lambda>kv. fst kv \<noteq> ''_listeners'') (dict (objs h ! a))\<rparr>]\<rparr>)"
  by (simp add: setattr_def nd_setattr_def nd_reserved_def nd_descriptors_def)

lemma nd_derive_eq:
  "nd_derive b s (Some p) h =
     (Inr (length (objs h)),
      h\<lparr>lsts := lsts h @ [[]],
        objs := objs h @ [\<lparr>buf = b, sel = s, dict = [(''_listeners'',
           case map_of (dict p) ''_listeners'' of None \<Rightarrow> ListRef (length (lsts h)) | Some v \<Rightarrow> v)]\<rparr>]\<rparr>)"
  by (simp add: nd_derive_def new_obj_def array_finalize_def new_list_def
      setattr_listeners_eq seq_def ret_def split: option.splits)

lemma copy_eq:
  "copy a h =
     (Inr (length (objs h)),
      h\<lparr>bufs := bufs h @ [contents h (objs h ! a)],
        lsts := lsts h @ [[]],
        objs := objs h @ [\<lparr>buf = length (bufs h),
           sel = (case sel (objs h ! a) of At _ \<Rightarrow> At 0 | Span ps \<Rightarrow> Span [0..<length ps]),
           dict = [(''_listeners'',
             case getattr a ''_listeners'' h of None \<Rightarrow> ListRef (length (lsts h)) | Some v \<Rightarrow> v)]\<rparr>]\<rparr>)"
  by (simp add: copy_def new_buf_def nd_derive_eq getattr_def Let_def cong: option.case_cong)

lemma getitem_slice_eq:
  assumes "sel (objs h ! a) = Span ps"
  shows "getitem a (Slice lo hi) h =
     (Inr (length (objs h)),
      h\<lparr>lsts := lsts h @ [[]],
        objs := objs h @ [\<lparr>buf = buf (objs h ! a), sel = Span (slice_sel lo hi ps),
           dict = [(''_listeners'',
             case getattr a ''_listeners'' h of None \<Rightarrow> ListRef (length (lsts h)) | Some v \<Rightarrow> v)]\<rparr>]\<rparr>)"
  using assms
  by (simp add: getitem_def nd_getitem_def nd_derive_eq getattr_def seq_def ret_def Let_def
      cong: option.case_cong)

lemma ndl_new_Ref_eq:
  assumes "getattr a ''_listeners'' h = Some v" and "a < length (objs h)"
  shows "ndl_new (Ref a) h =
     (Inr (length (objs h)),
      h\<lparr>lsts := lsts h @ [[]],
        objs := objs h @ [\<lparr>buf = buf (objs h ! a), sel = sel (objs h ! a),
           dict = [(''_listeners'', v)]\<rparr>]\<rparr>)"
  using assms
  by (simp add: ndl_new_def nd_asarray_def nd_derive_eq input_listeners_def getattr_def
      setattr_listeners_eq seq_def ret_def nth_append)

lemma ndl_new_Num_eq:
  "ndl_new (Num x) h =
     (Inr (length (objs h)),
      h\<lparr>bufs := bufs h @ [[x]],
        lsts := lsts h @ [[], []],
        objs := objs h @ [\<lparr>buf = length (bufs h), sel = At 0,
           dict = [(''_listeners'', ListRef (Suc (length (lsts h))))]\<rparr>]\<rparr>)"
  by (simp add: ndl_new_def nd_asarray_def new_buf_def nd_derive_eq input_listeners_def
      new_list_def setattr_listeners_eq seq_def ret_def)

lemma ndl_new_Seq_eq:
  "ndl_new (Seq xs) h =
     (Inr (length (objs h)),
      h\<lparr>bufs := bufs h @ [xs],
        lsts := lsts h @ [[], []],
        objs := objs h @ [\<lparr>buf = length (bufs h), sel = Span [0..<length xs],
           dict = [(''_listeners'', ListRef (Suc (length (lsts h))))]\<rparr>]\<rparr>)"
  by (simp add: ndl_new_def nd_asarray_def new_buf_def nd_derive_eq input_listeners_def
      new_list_def setattr_listeners_eq seq_def ret_def)

lemma getitem_Idx_eq:
  assumes "sel (objs h ! a) = Span ps" and "norm_index (length ps) i = Inr j"
    and "getattr a ''_listeners'' h = Some (ListRef r)"
    and "a < length (objs h)" and "r < length (lsts h)"
  shows "getitem a (Idx i) h =
     (Inr (length (objs h)),
      h\<lparr>bufs := bufs h @ [[bufs h ! buf (objs h ! a) ! (ps ! j)]],
        lsts := lsts h @ [[], lsts h ! r],
        objs := objs h @ [\<lparr>buf = length (bufs h), sel = At 0,
           dict = [(''_listeners'', ListRef (Suc (length (lsts h))))]\<rparr>]\<rparr>)"
proof -
  let ?x = "bufs h ! buf (objs h ! a) ! (ps ! j)"
  let ?h2 = "snd (ndl_new (Num ?x) h)"
  have g: "getattr a ''_listeners'' ?h2 = Some (ListRef r)"
    using assms(3,4) by (simp add: ndl_new_Num_eq getattr_def nth_append)
  have gv: "getattr (length (objs h)) ''_listeners'' ?h2 = Some (ListRef (Suc (length (lsts h))))"
    by (simp add: ndl_new_Num_eq getattr_def)
  have t: "talk_all (lsts ?h2 ! r) (length (objs h)) ?h2 =
      (Inr (), ?h2\<lparr>lsts := (lsts ?h2)[Suc (length (lsts h)) :=
         lsts ?h2 ! Suc (length (lsts h)) @ lsts ?h2 ! r]\<rparr>)"
    by (rule talk_all_eq [OF gv]) (simp add: ndl_new_Num_eq)
  have n: "nd_getitem a (Idx i) h = (Inr (Scalar ?x), h)"
    using assms(1,2) by (simp add: nd_getitem_def)
  have "getitem a (Idx i) h =
      (Inr (length (objs h)), ?h2\<lparr>lsts := (lsts ?h2)[Suc (length (lsts h)) :=
         lsts ?h2 ! Suc (length (lsts h)) @ lsts ?h2 ! r]\<rparr>)"
    unfolding getitem_def using n g t
    by (simp add: seq_def ret_def ndl_new_Num_eq)
  then show ?thesis
    using assms(5) by (simp add: ndl_new_Num_eq nth_append list_update_append)
qed



lemma norm_index_less: "norm_index n i = Inr j \<Longrightarrow> j < n"
  by (auto simp: norm_index_def Let_def split: if_splits)

lemma slice_sel_full [simp]: "slice_sel None None ps = ps"
  by (simp add: slice_sel_def)

lemma write_all_length [simp]: "length (write_all ps vs b) = length b"
  by (induction ps vs b rule: write_all.induct) simp_all

lemma write_all_other: "p \<notin> set ps \<Longrightarrow> write_all ps vs b ! p = b ! p"
  by (induction ps vs b rule: write_all.induct) auto

lemma write_all_map:
  "distinct ps \<Longrightarrow> list_all (\<lambda>p. p < length b) ps \<Longrightarrow> length vs = length ps
    \<Longrightarrow> map ((!) (write_all ps vs b)) ps = vs"
proof (induction ps vs b rule: write_all.induct)
  case (1 vs b)
  then show ?case by simp
next
  case (2 p ps b)
  then show ?case by simp
next
  case (3 p ps v vs b)
  have "write_all ps vs (b[p := v]) ! p = v"
    using 3 by (simp add: write_all_other)
  moreover have "map ((!) (write_all ps vs (b[p := v]))) ps = vs"
    using 3 by simp
  ultimately show ?case by simp
qed

lemma update_map_nth:
  assumes "distinct ps" and "j < length ps" and "ps ! j < length b"
  shows "map ((!) (b[ps ! j := v])) ps = (map ((!) b) ps)[j := v]"
proof (rule nth_equalityI)
  show "length (map ((!) (b[ps ! j := v])) ps) = length ((map ((!) b) ps)[j := v])"
    by simp
next
  fix k assume "k < length (map ((!) (b[ps ! j := v])) ps)"
  then have k: "k < length ps" by simp
  show "map ((!) (b[ps ! j := v])) ps ! k = (map ((!) b) ps)[j := v] ! k"
  proof (cases "k = j")
    case True
    then show ?thesis using k assms(3) by simp
  next
    case False
    then have "ps ! k \<noteq> ps ! j"
      using assms k by (simp add: nth_eq_iff_index_eq)
    then show ?thesis using k False by simp
  qed
qed

lemma demo_heap_built:
  "seq (ndl_new (Seq [1, 2, 3])) (\<lambda>a. talk_to a (Watcher 0)) empty_heap = (Inr (), demo_heap)"
  by (simp add: seq_def ndl_new_Seq_eq talk_to_def getattr_def empty_heap_def demo_heap_def
      upt_rec [of 0] upt_rec [of 1] upt_rec [of 2] upt_rec [of 3])


lemma talk_to_calls: "calls (snd (talk_to a me h)) = calls h"
  by (simp add: talk_to_def split: option.splits pyval.splits)

lemma talk_all_calls: "calls (snd (talk_all ls v h)) = calls h"
proof (induction ls arbitrary: h)
  case Nil
  show ?case by simp
next
  case (Cons l ls)
  show ?case
  proof (cases "talk_to v l h")
    case (Pair res h1)
    have "calls h1 = calls h"
      using talk_to_calls [of v l h] Pair by simp
    then show ?thesis
      using Pair Cons.IH [of h1] by (cases res) (simp_all add: seq_def)
  qed
qed

lemma ndl_new_calls: "calls (snd (ndl_new inp h)) = calls h"
proof (cases inp)
  case (Num x)
  then show ?thesis by (simp add: ndl_new_Num_eq)
next
  case (Seq xs)
  then show ?thesis by (simp add: ndl_new_Seq_eq)
next
  case (Ref a)
  then show ?thesis
    by (simp add: ndl_new_def nd_asarray_def nd_derive_eq input_listeners_def
        setattr_listeners_eq seq_def ret_def new_list_def split: option.splits)
qed

lemma copy_calls: "calls (snd (copy a h)) = calls h"
  by (simp add: copy_eq)

lemma nd_getitem_calls: "calls (snd (nd_getitem a idx h)) = calls h"
  by (simp add: nd_getitem_def nd_derive_eq seq_def ret_def Let_def
      split: view.splits index.splits sum.splits)

lemma getitem_calls: "calls (snd (getitem a idx h)) = calls h"
proof (cases "nd_getitem a idx h")
  case (Pair res h1)
  have c1: "calls h1 = calls h"
    using nd_getitem_calls [of a idx h] Pair by simp
  show ?thesis
  proof (cases res)
    case (Inl e)
    then show ?thesis using Pair c1 by (simp add: getitem_def seq_def)
  next
    case (Inr it)
    show ?thesis
    proof (cases it)
      case (Derived v)
      then show ?thesis using Pair Inr c1 by (simp add: getitem_def seq_def ret_def)
    next
      case (Scalar x)
      obtain h2 where n: "ndl_new (Num x) h1 = (Inr (length (objs h1)), h2)"
        by (simp add: ndl_new_Num_eq)
      have c2: "calls h2 = calls h"
        using ndl_new_calls [of "Num x" h1] n c1 by simp
      show ?thesis
      proof (cases "getattr a ''_listeners'' h2")
        case None
        then show ?thesis
          using Pair Inr Scalar n c2 by (simp add: getitem_def seq_def)
      next
        case (Some pv)
        show ?thesis
        proof (cases pv)
          case (Opaque k)
          then show ?thesis
            using Pair Inr Scalar n c2 Some by (simp add: getitem_def seq_def)
        next
          case (ListRef r)
          obtain res3 h3 where t: "talk_all (lsts h2 ! r) (length (objs h1)) h2 = (res3, h3)"
            by (cases "talk_all (lsts h2 ! r) (length (objs h1)) h2")
          have "calls h3 = calls h"
            using talk_all_calls [of "lsts h2 ! r" "length (objs h1)" h2] t c2 by simp
          then show ?thesis
            using Pair Inr Scalar n Some ListRef t
            by (cases res3) (simp_all add: getitem_def seq_def ret_def)
        qed
      qed
    qed
  qed
qed


lemma setslice_setitem: "setslice a i j val h = setitem a (Slice (Some i) (Some j)) val h"
  by (simp add: setslice_def setitem_def)

lemma setitem_ok:
  assumes "nd_setitem idx val (objs h ! a) (bufs h) = Inr bs"
  shows "setitem a idx val h = notify a (h\<lparr>bufs := bs\<rparr>)"
  using assms by (simp add: setitem_def)

lemma itemset_ok:
  assumes "nd_itemset pos v (objs h ! a) (bufs h) = Inr bs"
  shows "itemset a pos v h = notify a (h\<lparr>bufs := bs\<rparr>)"
  using assms by (simp add: itemset_def)

lemma norm_index_out:
  "\<not> (- int n \<le> i \<and> i < int n) \<Longrightarrow> norm_index n i = Inl IndexError"
  by (auto simp: norm_index_def Let_def)

lemma demo_getattr: "getattr 0 ''_listeners'' demo_heap = Some (ListRef 1)"
  by (simp add: demo_heap_def getattr_def)

lemma demo_setitem0:
  "nd_setitem (Idx 0) (Zero 9) (objs demo_heap ! 0) (bufs demo_heap) = Inr [[9, 2, 3]]"
  by (simp add: demo_heap_def nd_setitem_def norm_index_def)

text \<open>
  C5.  Reading an element or a slice, subscribing a listener, constructing an instance
  and copying one leave the record of listener calls as it was: none of them calls a
  listener.  The writes are the operations that go on to the notification: after a
  successful underlying write, \<open>setitem\<close> and \<open>itemset\<close> are the notification on the
  updated store, and \<open>setattr\<close> for a name other than \<^verbatim>\<open>_listeners\<close> is the call
  \<^verbatim>\<open>self.__notify()\<close> on the updated store: the notification, unless an entry of the
  instance dictionary stands in its place.
\<close>

theorem no_spurious_notification:
  "calls (snd (getitem a idx h)) = calls h \<and>
   calls (snd (talk_to a me h)) = calls h \<and>
   calls (snd (ndl_new inp h)) = calls h \<and>
   calls (snd (copy a h)) = calls h \<and>
   (nd_setitem idx val (objs h ! a) (bufs h) = Inr bs \<longrightarrow>
      setitem a idx val h = notify a (h\<lparr>bufs := bs\<rparr>)) \<and>
   (nd_itemset pos v (objs h ! a) (bufs h) = Inr bs' \<longrightarrow>
      itemset a pos v h = notify a (h\<lparr>bufs := bs'\<rparr>)) \<and>
   (nd_setattr name pv a h = Inr h1 \<and> name \<noteq> ''_listeners'' \<longrightarrow>
      setattr a name pv h =
        (case getattr a ''_ndarray_listener__notify'' h1 of
           None \<Rightarrow> notify a h1
         | Some f \<Rightarrow> call_stored f h1))"
  by (simp add: getitem_calls talk_to_calls ndl_new_calls copy_calls setitem_ok itemset_ok
      setattr_def)

theorem no_spurious_notification_witness:
  "calls (snd (getitem 0 (Idx 0) demo_heap)) = calls demo_heap \<and>
   calls (snd (talk_to 0 (Watcher 4) demo_heap)) = calls demo_heap \<and>
   calls (snd (ndl_new (Ref 0) demo_heap)) = calls demo_heap \<and>
   calls (snd (copy 0 demo_heap)) = calls demo_heap \<and>
   nd_setitem (Idx 0) (Zero 9) (objs demo_heap ! 0) (bufs demo_heap) = Inr [[9, 2, 3]] \<and>
   setitem 0 (Idx 0) (Zero 9) demo_heap = notify 0 (demo_heap\<lparr>bufs := [[9, 2, 3]]\<rparr>) \<and>
   nd_itemset [1] 9 (objs demo_heap ! 0) (bufs demo_heap) = Inr [[1, 9, 3]] \<and>
   itemset 0 [1] 9 demo_heap = notify 0 (demo_heap\<lparr>bufs := [[1, 9, 3]]\<rparr>) \<and>
   nd_setattr ''tag'' (Opaque 7) 0 demo_heap =
     Inr (demo_heap\<lparr>objs := [(objs demo_heap ! 0)
       \<lparr>dict := [(''tag'', Opaque 7), (''_listeners'', ListRef 1)]\<rparr>]\<rparr>) \<and>
   setattr 0 ''tag'' (Opaque 7) demo_heap =
     notify 0 (demo_heap\<lparr>objs := [(objs demo_heap ! 0)
       \<lparr>dict := [(''tag'', Opaque 7), (''_listeners'', ListRef 1)]\<rparr>]\<rparr>)"
proof -
  have i: "nd_itemset [1] 9 (objs demo_heap ! 0) (bufs demo_heap) = Inr [[1, 9, 3]]"
    by (simp add: demo_heap_def nd_itemset_def norm_index_def)
  let ?g = "demo_heap\<lparr>objs := [(objs demo_heap ! 0)
       \<lparr>dict := [(''tag'', Opaque 7), (''_listeners'', ListRef 1)]\<rparr>]\<rparr>"
  have t: "nd_setattr ''tag'' (Opaque 7) 0 demo_heap = Inr ?g"
    by (simp add: demo_heap_def nd_setattr_def nd_reserved_def nd_descriptors_def)
  have g: "getattr 0 ''_ndarray_listener__notify'' ?g = None"
    by (simp add: getattr_def)
  show ?thesis
    using demo_setitem0 i t g
      no_spurious_notification [where a = 0 and h = demo_heap and idx = "Idx 0"
        and me = "Watcher 4" and inp = "Ref 0" and val = "Zero 9" and bs = "[[9, 2, 3]]"
        and pos = "[1]" and v = 9 and bs' = "[[1, 9, 3]]" and name = "''tag''"
        and pv = "Opaque 7" and ?h1.0 = ?g]
    by simp
qed


lemma demo_lsts:
  "lsts demo_heap ! 1 = [Watcher 0]" "lsts demo_heap ! Suc 0 = [Watcher 0]"
  "length (lsts demo_heap) = 2" "lsts demo_heap = [[], [Watcher 0]]"
  by (simp_all add: demo_heap_def)

lemma takeWhile_all: "list_all P xs \<Longrightarrow> takeWhile P xs = xs"
  by (induction xs) simp_all

lemma takeWhile_callable_snoc:
  "takeWhile callable (ls @ [NotCallable k]) = takeWhile callable ls"
  by (induction ls) simp_all

lemma demo_obj:
  "objs demo_heap ! 0 = \<lparr>buf = 0, sel = Span [0, 1, 2], dict = [(''_listeners'', ListRef 1)]\<rparr>"
  "length (objs demo_heap) = 1" "bufs demo_heap = [[1, 2, 3]]" "calls demo_heap = []"
  by (simp_all add: demo_heap_def)

text \<open>
  C7.  A notification calls the entries of the listener list from first to last, each
  with the current contents as its argument, and keeps duplicates: the calls added to
  the record are the list itself, entry by entry.  \<open>talk_to\<close> appends at the end, so a
  listener subscribed first is called first, and a listener subscribed twice (\<open>k1 = k2\<close>
  below) is called twice.
\<close>

theorem notify_insertion_order:
  assumes "getattr a ''_listeners'' h = Some (ListRef r)"
    and "r < length (lsts h)"
    and "list_all callable (lsts h ! r)"
  shows "notify a h =
      (Inr (), h\<lparr>calls := calls h @ map (\<lambda>l. (l, asarray h (objs h ! a))) (lsts h ! r)\<rparr>) \<and>
    seq (talk_to a (Watcher k1)) (\<lambda>_. seq (talk_to a (Watcher k2)) (\<lambda>_. notify a)) h =
      (Inr (), h\<lparr>lsts := (lsts h)[r := lsts h ! r @ [Watcher k1, Watcher k2]],
         calls := calls h @ map (\<lambda>l. (l, asarray h (objs h ! a)))
           (lsts h ! r @ [Watcher k1, Watcher k2])\<rparr>)"
proof -
  have n: "notify a h =
      (Inr (), h\<lparr>calls := calls h @ map (\<lambda>l. (l, asarray h (objs h ! a))) (lsts h ! r)\<rparr>)"
    using assms(3) by (simp add: notify_eq [OF assms(1)] takeWhile_all)
  let ?h1 = "h\<lparr>lsts := (lsts h)[r := lsts h ! r @ [Watcher k1]]\<rparr>"
  let ?h2 = "h\<lparr>lsts := (lsts h)[r := lsts h ! r @ [Watcher k1, Watcher k2]]\<rparr>"
  have t1: "talk_to a (Watcher k1) h = (Inr (), ?h1)"
    by (rule talk_to_eq [OF assms(1)])
  have g1: "getattr a ''_listeners'' ?h1 = Some (ListRef r)"
    using assms(1) by simp
  have t2: "talk_to a (Watcher k2) ?h1 = (Inr (), ?h2)"
    using assms(2) by (simp add: talk_to_eq [OF g1])
  have g2: "getattr a ''_listeners'' ?h2 = Some (ListRef r)"
    using assms(1) by simp
  have n2: "notify a ?h2 =
      (Inr (), ?h2\<lparr>calls := calls h @ map (\<lambda>l. (l, asarray h (objs h ! a)))
           (lsts h ! r @ [Watcher k1, Watcher k2])\<rparr>)"
    using assms(2,3) by (simp add: notify_eq [OF g2] takeWhile_all)
  show ?thesis
    using n t1 t2 n2 by (simp add: seq_def)
qed

theorem notify_insertion_order_witness:
  "getattr 0 ''_listeners'' demo_heap = Some (ListRef 1) \<and>
   1 < length (lsts demo_heap) \<and>
   list_all callable (lsts demo_heap ! 1) \<and>
   notify 0 demo_heap = (Inr (), demo_heap\<lparr>calls := [(Watcher 0, One [1, 2, 3])]\<rparr>) \<and>
   seq (talk_to 0 (Watcher 5)) (\<lambda>_. seq (talk_to 0 (Watcher 5)) (\<lambda>_. notify 0)) demo_heap =
     (Inr (), demo_heap\<lparr>lsts := [[], [Watcher 0, Watcher 5, Watcher 5]],
        calls := [(Watcher 0, One [1, 2, 3]), (Watcher 5, One [1, 2, 3]),
          (Watcher 5, One [1, 2, 3])]\<rparr>)"
proof -
  have h2: "1 < length (lsts demo_heap)" by (simp add: demo_lsts)
  have h3: "list_all callable (lsts demo_heap ! 1)" by (simp add: demo_lsts)
  show ?thesis
    using demo_getattr h2 h3 notify_insertion_order [OF demo_getattr h2 h3, of 5 5]
    by (simp add: demo_heap_def asarray_def nd_read_def)
qed

text \<open>
  C8.  When the underlying write fails, \<open>setitem\<close> and \<open>itemset\<close> return its error and
  the store as it was; in particular no call is added to the record.  An index outside
  \<open>-n \<le> i < n\<close> on a one-dimensional array of \<open>n\<close> elements is such a failure, with
  \<^verbatim>\<open>IndexError\<close>.
\<close>

theorem failed_write_skips_notification:
  "(nd_setitem idx val (objs h ! a) (bufs h) = Inl e \<longrightarrow> setitem a idx val h = (Inl e, h)) \<and>
   (nd_itemset pos v (objs h ! a) (bufs h) = Inl e' \<longrightarrow> itemset a pos v h = (Inl e', h)) \<and>
   (sel (objs h ! a) = Span ps \<and> \<not> (- int (length ps) \<le> i \<and> i < int (length ps)) \<longrightarrow>
      setitem a (Idx i) val h = (Inl IndexError, h) \<and>
      itemset a [i] v h = (Inl IndexError, h))"
  by (simp add: setitem_def itemset_def nd_setitem_def nd_itemset_def norm_index_out)

theorem failed_write_skips_notification_witness:
  "nd_setitem (Slice None None) (One [7, 8]) (objs demo_heap ! 0) (bufs demo_heap) =
     Inl ValueError \<and>
   setitem 0 (Slice None None) (One [7, 8]) demo_heap = (Inl ValueError, demo_heap) \<and>
   nd_itemset [] 9 (objs demo_heap ! 0) (bufs demo_heap) = Inl ValueError \<and>
   itemset 0 [] 9 demo_heap = (Inl ValueError, demo_heap) \<and>
   sel (objs demo_heap ! 0) = Span [0, 1, 2] \<and>
   \<not> (- int (length [0, 1, 2 :: nat]) \<le> 3 \<and> 3 < int (length [0, 1, 2 :: nat])) \<and>
   setitem 0 (Idx 3) (One [7, 8]) demo_heap = (Inl IndexError, demo_heap) \<and>
   itemset 0 [3] 9 demo_heap = (Inl IndexError, demo_heap)"
proof -
  have s: "nd_setitem (Slice None None) (One [7, 8]) (objs demo_heap ! 0) (bufs demo_heap) =
      Inl ValueError"
    by (simp add: nd_setitem_def demo_obj)
  have i: "nd_itemset [] 9 (objs demo_heap ! 0) (bufs demo_heap) = Inl ValueError"
    by (simp add: nd_itemset_def demo_obj)
  have v: "sel (objs demo_heap ! 0) = Span [0, 1, 2]"
    by (simp add: demo_obj)
  show ?thesis
    using s i v
      failed_write_skips_notification [where a = 0 and h = demo_heap
        and idx = "Slice None None" and val = "One [7, 8]" and e = ValueError
        and pos = "[]" and v = 9 and e' = ValueError and ps = "[0, 1, 2]" and i = 3]
    by simp
qed

text \<open>
  C9.  \<open>talk_to\<close> appends whatever it is given, an object that cannot be called
  included, and returns without an error.  The error comes with the next notification:
  a write whose underlying assignment succeeds then ends in \<^verbatim>\<open>TypeError\<close>, after the
  assignment has been made and the callable listeners ahead of the first entry that
  cannot be called have been called.
\<close>

theorem noncallable_fails_at_notification:
  assumes "getattr a ''_listeners'' h = Some (ListRef r)"
    and "r < length (lsts h)"
    and "nd_setitem idx val (objs h ! a) (bufs h) = Inr bs"
  shows "talk_to a (NotCallable k) h =
      (Inr (), h\<lparr>lsts := (lsts h)[r := lsts h ! r @ [NotCallable k]]\<rparr>) \<and>
    setitem a idx val (snd (talk_to a (NotCallable k) h)) =
      (Inl TypeError, h\<lparr>lsts := (lsts h)[r := lsts h ! r @ [NotCallable k]], bufs := bs,
         calls := calls h @ map (\<lambda>l. (l, asarray (h\<lparr>bufs := bs\<rparr>) (objs h ! a)))
           (takeWhile callable (lsts h ! r))\<rparr>)"
proof -
  let ?h1 = "h\<lparr>lsts := (lsts h)[r := lsts h ! r @ [NotCallable k]]\<rparr>"
  have t: "talk_to a (NotCallable k) h = (Inr (), ?h1)"
    by (rule talk_to_eq [OF assms(1)])
  have w: "nd_setitem idx val (objs ?h1 ! a) (bufs ?h1) = Inr bs"
    using assms(3) by simp
  have g: "getattr a ''_listeners'' (?h1\<lparr>bufs := bs\<rparr>) = Some (ListRef r)"
    using assms(1) by simp
  note tw = takeWhile_callable_snoc [of "lsts h ! r" k]
  have "setitem a idx val ?h1 =
      (Inl TypeError, ?h1\<lparr>bufs := bs,
         calls := calls h @ map (\<lambda>l. (l, asarray (h\<lparr>bufs := bs\<rparr>) (objs h ! a)))
           (takeWhile callable (lsts h ! r))\<rparr>)"
    using assms(2) by (simp add: setitem_ok [OF w] notify_eq [OF g] tw asarray_def)
  then show ?thesis using t by simp
qed

theorem noncallable_fails_at_notification_witness:
  "getattr 0 ''_listeners'' demo_heap = Some (ListRef 1) \<and>
   1 < length (lsts demo_heap) \<and>
   nd_setitem (Idx 0) (Zero 9) (objs demo_heap ! 0) (bufs demo_heap) = Inr [[9, 2, 3]] \<and>
   talk_to 0 (NotCallable 8) demo_heap =
     (Inr (), demo_heap\<lparr>lsts := [[], [Watcher 0, NotCallable 8]]\<rparr>) \<and>
   setitem 0 (Idx 0) (Zero 9) (snd (talk_to 0 (NotCallable 8) demo_heap)) =
     (Inl TypeError, demo_heap\<lparr>lsts := [[], [Watcher 0, NotCallable 8]],
        bufs := [[9, 2, 3]], calls := [(Watcher 0, One [9, 2, 3])]\<rparr>)"
proof -
  have h2: "1 < length (lsts demo_heap)" by (simp add: demo_lsts)
  show ?thesis
    using demo_getattr h2 demo_setitem0
      noncallable_fails_at_notification [OF demo_getattr h2 demo_setitem0, of 8]
    by (auto simp: demo_heap_def asarray_def nd_read_def)
qed


lemma norm_index_in:
  assumes "- int n \<le> i" and "i < int n"
  shows "norm_index n i = Inr (nat (if i < 0 then i + int n else i))"
  using assms by (simp add: norm_index_def Let_def)

lemma calls_to_count:
  "length (filter ((\<lambda>c. fst c = L) \<circ> (\<lambda>l. (l, x))) ls) = count_list ls L"
  by (induction ls) simp_all

lemma nd_read_update_one:
  assumes "sel ob = Span ps" and "distinct ps" and "j < length ps"
    and "ps ! j < length (bs ! buf ob)" and "buf ob < length bs"
  shows "nd_read (bs[buf ob := (bs ! buf ob)[ps ! j := v]]) ob =
     One ((elems (nd_read bs ob))[j := v])"
  using assms by (simp add: nd_read_def update_map_nth)

lemma nd_read_write_all:
  assumes "sel ob = Span ps" and "distinct ps"
    and "list_all (\<lambda>p. p < length (bs ! buf ob)) ps" and "buf ob < length bs"
    and "length vs = length ps"
  shows "nd_read (bs[buf ob := write_all ps vs (bs ! buf ob)]) ob = One vs"
  using assms by (simp add: nd_read_def write_all_map)

lemma setitem_notifies:
  assumes "nd_setitem idx val (objs h ! a) (bufs h) = Inr bs"
    and "getattr a ''_listeners'' h = Some (ListRef r)"
    and "list_all callable (lsts h ! r)"
  shows "setitem a idx val h =
     (Inr (), h\<lparr>bufs := bs,
        calls := calls h @ map (\<lambda>l. (l, nd_read bs (objs h ! a))) (lsts h ! r)\<rparr>)"
proof -
  have g: "getattr a ''_listeners'' (h\<lparr>bufs := bs\<rparr>) = Some (ListRef r)"
    using assms(2) by simp
  show ?thesis
    using assms(3) by (simp add: setitem_ok [OF assms(1)] notify_eq [OF g] takeWhile_all asarray_def)
qed

text \<open>
  C2.  Let \<open>a\<close> be a well-formed one-dimensional instance of \<open>n\<close> elements whose
  listeners are all callable, and \<open>i\<close> an index with \<open>-n \<le> i < n\<close>.  Then
  \<^verbatim>\<open>a[i] = v\<close> succeeds; it stores \<open>v\<close> at the position the index denotes and, on the
  updated store, adds exactly one call per entry of the listener list, each with the
  whole contents of \<open>a\<close> after the write.  So a listener that occurs once in the list is
  called once.  The same holds for \<^verbatim>\<open>a[:] = v\<close>, where the contents after the write are
  \<open>n\<close> times \<open>v\<close>, and for every index or slice and value that the underlying assignment
  accepts.
\<close>

theorem write_then_notify:
  assumes "sel (objs h ! a) = Span ps"
    and "obj_ok h (objs h ! a)"
    and "- int (length ps) \<le> i" and "i < int (length ps)"
    and "getattr a ''_listeners'' h = Some (ListRef r)"
    and "list_all callable (lsts h ! r)"
  shows "(let j = nat (if i < 0 then i + int (length ps) else i);
            after = One ((contents h (objs h ! a))[j := v]);
            h' = snd (setitem a (Idx i) (Zero v) h)
          in fst (setitem a (Idx i) (Zero v) h) = Inr () \<and>
             asarray h' (objs h' ! a) = after \<and>
             calls h' = calls h @ map (\<lambda>l. (l, after)) (lsts h ! r) \<and>
             length (filter (\<lambda>c. fst c = L) (drop (length (calls h)) (calls h'))) =
               count_list (lsts h ! r) L) \<and>
         (let after = One (replicate (length ps) v);
            h' = snd (setitem a (Slice None None) (Zero v) h)
          in fst (setitem a (Slice None None) (Zero v) h) = Inr () \<and>
             asarray h' (objs h' ! a) = after \<and>
             calls h' = calls h @ map (\<lambda>l. (l, after)) (lsts h ! r)) \<and>
         (nd_setitem idx val (objs h ! a) (bufs h) = Inr bs \<longrightarrow>
            (let h' = snd (setitem a idx val h)
             in fst (setitem a idx val h) = Inr () \<and> bufs h' = bs \<and>
                calls h' = calls h @ map (\<lambda>l. (l, asarray h' (objs h' ! a))) (lsts h ! r)))"
proof -
  let ?ob = "objs h ! a"
  let ?j = "nat (if i < 0 then i + int (length ps) else i)"
  have ok: "buf ?ob < length (bufs h)" "distinct ps"
    "list_all (\<lambda>p. p < length (bufs h ! buf ?ob)) ps"
    using assms(1,2) by (simp_all add: obj_ok_def)
  have ni: "norm_index (length ps) i = Inr ?j"
    by (rule norm_index_in [OF assms(3,4)])
  have j: "?j < length ps" by (rule norm_index_less [OF ni])
  have pj: "ps ! ?j < length (bufs h ! buf ?ob)"
    using ok(3) j by (simp add: list_all_length)
  let ?bs1 = "(bufs h)[buf ?ob := (bufs h ! buf ?ob)[ps ! ?j := v]]"
  have w1: "nd_setitem (Idx i) (Zero v) ?ob (bufs h) = Inr ?bs1"
    using assms(1) ni by (simp add: nd_setitem_def)
  have r1: "nd_read ?bs1 ?ob = One ((contents h ?ob)[?j := v])"
    using nd_read_update_one [OF assms(1) ok(2) j pj ok(1)]
    by (simp add: contents_def asarray_def)
  have s1: "setitem a (Idx i) (Zero v) h =
      (Inr (), h\<lparr>bufs := ?bs1,
         calls := calls h @ map (\<lambda>l. (l, One ((contents h ?ob)[?j := v]))) (lsts h ! r)\<rparr>)"
    using setitem_notifies [OF w1 assms(5,6)] r1 by simp
  let ?bs2 = "(bufs h)[buf ?ob := write_all ps (replicate (length ps) v) (bufs h ! buf ?ob)]"
  have w2: "nd_setitem (Slice None None) (Zero v) ?ob (bufs h) = Inr ?bs2"
    using assms(1) by (simp add: nd_setitem_def)
  have r2: "nd_read ?bs2 ?ob = One (replicate (length ps) v)"
    by (rule nd_read_write_all [OF assms(1) ok(2,3,1)]) simp
  have s2: "setitem a (Slice None None) (Zero v) h =
      (Inr (), h\<lparr>bufs := ?bs2,
         calls := calls h @ map (\<lambda>l. (l, One (replicate (length ps) v))) (lsts h ! r)\<rparr>)"
    using setitem_notifies [OF w2 assms(5,6)] r2 by simp
  have p1: "let j = ?j; after = One ((contents h ?ob)[j := v]);
            h' = snd (setitem a (Idx i) (Zero v) h)
          in fst (setitem a (Idx i) (Zero v) h) = Inr () \<and>
             asarray h' (objs h' ! a) = after \<and>
             calls h' = calls h @ map (\<lambda>l. (l, after)) (lsts h ! r) \<and>
             length (filter (\<lambda>c. fst c = L) (drop (length (calls h)) (calls h'))) =
               count_list (lsts h ! r) L"
    using r1 by (simp add: s1 Let_def asarray_def calls_to_count)
  have p2: "let after = One (replicate (length ps) v);
            h' = snd (setitem a (Slice None None) (Zero v) h)
          in fst (setitem a (Slice None None) (Zero v) h) = Inr () \<and>
             asarray h' (objs h' ! a) = after \<and>
             calls h' = calls h @ map (\<lambda>l. (l, after)) (lsts h ! r)"
    using r2 by (simp add: s2 Let_def asarray_def)
  have p3: "nd_setitem idx val ?ob (bufs h) = Inr bs \<longrightarrow>
            (let h' = snd (setitem a idx val h)
             in fst (setitem a idx val h) = Inr () \<and> bufs h' = bs \<and>
                calls h' = calls h @ map (\<lambda>l. (l, asarray h' (objs h' ! a))) (lsts h ! r))"
  proof
    assume w: "nd_setitem idx val ?ob (bufs h) = Inr bs"
    show "let h' = snd (setitem a idx val h)
             in fst (setitem a idx val h) = Inr () \<and> bufs h' = bs \<and>
                calls h' = calls h @ map (\<lambda>l. (l, asarray h' (objs h' ! a))) (lsts h ! r)"
      by (simp add: setitem_notifies [OF w assms(5,6)] Let_def asarray_def)
  qed
  show ?thesis using p1 p2 p3 by blast
qed


theorem write_then_notify_witness:
  "sel (objs demo_heap ! 0) = Span [0, 1, 2] \<and>
   obj_ok demo_heap (objs demo_heap ! 0) \<and>
   - int (length [0, 1, 2 :: nat]) \<le> - 1 \<and> - 1 < int (length [0, 1, 2 :: nat]) \<and>
   getattr 0 ''_listeners'' demo_heap = Some (ListRef 1) \<and>
   list_all callable (lsts demo_heap ! 1) \<and>
   nd_setitem (Slice (Some 1) None) (One [7, 8]) (objs demo_heap ! 0) (bufs demo_heap) =
     Inr [[1, 7, 8]] \<and>
   fst (setitem 0 (Idx (- 1)) (Zero 9) demo_heap) = Inr () \<and>
   calls (snd (setitem 0 (Idx (- 1)) (Zero 9) demo_heap)) = [(Watcher 0, One [1, 2, 9])] \<and>
   length (filter (\<lambda>c. fst c = Watcher 0)
     (calls (snd (setitem 0 (Idx (- 1)) (Zero 9) demo_heap)))) = 1 \<and>
   calls (snd (setitem 0 (Slice None None) (Zero 9) demo_heap)) =
     [(Watcher 0, One [9, 9, 9])] \<and>
   calls (snd (setitem 0 (Slice (Some 1) None) (One [7, 8]) demo_heap)) =
     [(Watcher 0, One [1, 7, 8])]"
proof -
  have h1: "sel (objs demo_heap ! 0) = Span [0, 1, 2]"
    by (simp add: demo_heap_def)
  have h2: "obj_ok demo_heap (objs demo_heap ! 0)"
    by (simp add: demo_heap_def obj_ok_def)
  have h3: "- int (length [0, 1, 2 :: nat]) \<le> - 1" by simp
  have h4: "- 1 < int (length [0, 1, 2 :: nat])" by simp
  have h6: "list_all callable (lsts demo_heap ! 1)"
    by (simp add: demo_heap_def)
  have h7: "nd_setitem (Slice (Some 1) None) (One [7, 8]) (objs demo_heap ! 0) (bufs demo_heap) =
      Inr [[1, 7, 8]]"
    by (simp add: demo_heap_def nd_setitem_def slice_sel_def slice_bound_def)
  note w = write_then_notify [OF h1 h2 h3 h4 demo_getattr h6, where v = 9
      and L = "Watcher 0" and idx = "Slice (Some 1) None" and val = "One [7, 8]"
      and bs = "[[1, 7, 8]]"]
  have c: "contents demo_heap (objs demo_heap ! 0) = [1, 2, 3]"
    by (simp add: demo_heap_def contents_def asarray_def nd_read_def)
  have l: "calls demo_heap = []"
    by (simp add: demo_heap_def)
  have b: "bufs (snd (setitem 0 (Slice (Some 1) None) (One [7, 8]) demo_heap)) = [[1, 7, 8]]"
    using w h7 by (simp add: Let_def)
  have o: "objs (snd (setitem 0 (Slice (Some 1) None) (One [7, 8]) demo_heap)) ! 0 =
      objs demo_heap ! 0"
    using setitem_notifies [OF h7 demo_getattr h6] by simp
  have "asarray (snd (setitem 0 (Slice (Some 1) None) (One [7, 8]) demo_heap))
      (objs demo_heap ! 0) = One [1, 7, 8]"
    using b by (simp add: asarray_def nd_read_def demo_heap_def)
  then show ?thesis
    using h1 h2 h6 h7 demo_getattr w o
    by (simp add: Let_def c l demo_lsts)
qed

lemma nd_read_dict [simp]: "nd_read bs (ob\<lparr>dict := d\<rparr>) = nd_read bs ob"
  by (simp add: nd_read_def split: view.splits)

lemma map_of_other:
  "k \<noteq> name \<Longrightarrow> map_of (filter (\<lambda>kv. fst kv \<noteq> name) d) k = map_of d k"
  by (induction d) auto

lemma nd_setattr_plain:
  assumes "\<not> nd_reserved name"
  shows "nd_setattr name v a h = Inr (h\<lparr>objs := (objs h)[a := (objs h ! a)
      \<lparr>dict := (name, v) # filter (\<lambda>kv. fst kv \<noteq> name) (dict (objs h ! a))\<rparr>]\<rparr>)"
  using assms by (simp add: nd_setattr_def)

lemma nd_setattr_reserved:
  assumes "nd_reserved name"
  shows "nd_setattr name v a h =
     (case setters h name v (objs h ! a) (bufs h) of
        Inl e \<Rightarrow> Inl e
      | Inr (ob, bs) \<Rightarrow> Inr (h\<lparr>objs := (objs h)[a := ob], bufs := bs\<rparr>))"
  using assms by (simp add: nd_setattr_def)

text \<open>
  An assignment that the underlying attribute assignment accepts, to any name but
  \<^verbatim>\<open>_listeners\<close>, a reserved name included, is followed by the notification with the
  contents after the assignment, as long as the instance dictionary has no entry under
  the name of the notification method.
\<close>

lemma setattr_then_notify:
  assumes "nd_setattr name v a h = Inr h1"
    and "name \<noteq> ''_listeners''"
    and "getattr a ''_ndarray_listener__notify'' h1 = None"
    and "getattr a ''_listeners'' h1 = Some (ListRef r)"
    and "list_all callable (lsts h1 ! r)"
  shows "setattr a name v h =
     (Inr (), h1\<lparr>calls := calls h1 @
        map (\<lambda>l. (l, asarray h1 (objs h1 ! a))) (lsts h1 ! r)\<rparr>)"
  using assms(1,2,3,5) by (simp add: setattr_def notify_eq [OF assms(4)] takeWhile_all)

text \<open>
  For a reserved name that the table accepts, the contents passed to the listeners are
  those that the setter has left.
\<close>

lemma setattr_reserved_notifies:
  assumes "nd_reserved name"
    and "setters h name v (objs h ! a) (bufs h) = Inr (ob, bs)"
    and "a < length (objs h)"
    and "map_of (dict ob) ''_ndarray_listener__notify'' = None"
    and "map_of (dict ob) ''_listeners'' = Some (ListRef r)"
    and "list_all callable (lsts h ! r)"
  shows "setattr a name v h =
     (Inr (), h\<lparr>objs := (objs h)[a := ob], bufs := bs,
        calls := calls h @ map (\<lambda>l. (l, nd_read bs ob)) (lsts h ! r)\<rparr>)"
proof -
  let ?h1 = "h\<lparr>objs := (objs h)[a := ob], bufs := bs\<rparr>"
  have n: "nd_setattr name v a h = Inr ?h1"
    using assms(2) by (simp add: nd_setattr_reserved [OF assms(1)])
  have ne: "name \<noteq> ''_listeners''"
    using assms(1) by (auto simp: nd_reserved_def nd_descriptors_def)
  have g1: "getattr a ''_ndarray_listener__notify'' ?h1 = None"
    using assms(3,4) by (simp add: getattr_def)
  have g2: "getattr a ''_listeners'' ?h1 = Some (ListRef r)"
    using assms(3,5) by (simp add: getattr_def)
  have c: "list_all callable (lsts ?h1 ! r)"
    using assms(6) by simp
  show ?thesis
    using assms(3) by (simp add: setattr_then_notify [OF n ne g1 g2 c] asarray_def)
qed

text \<open>
  For a name that is not reserved and is neither \<^verbatim>\<open>_listeners\<close> nor the name of the
  notification method, the value becomes an entry of the instance dictionary and the
  listeners are called with the contents, which the assignment has not changed.
\<close>

lemma setattr_plain_notifies:
  assumes "a < length (objs h)"
    and "getattr a ''_listeners'' h = Some (ListRef r)"
    and "list_all callable (lsts h ! r)"
    and "\<not> nd_reserved name"
    and "name \<noteq> ''_listeners''" and "name \<noteq> ''_ndarray_listener__notify''"
    and "getattr a ''_ndarray_listener__notify'' h = None"
  shows "setattr a name v h =
     (Inr (), h\<lparr>objs := (objs h)[a := (objs h ! a)
          \<lparr>dict := (name, v) # filter (\<lambda>kv. fst kv \<noteq> name) (dict (objs h ! a))\<rparr>],
        calls := calls h @ map (\<lambda>l. (l, asarray h (objs h ! a))) (lsts h ! r)\<rparr>)"
proof -
  let ?h1 = "h\<lparr>objs := (objs h)[a := (objs h ! a)
      \<lparr>dict := (name, v) # filter (\<lambda>kv. fst kv \<noteq> name) (dict (objs h ! a))\<rparr>]\<rparr>"
  have n: "nd_setattr name v a h = Inr ?h1"
    by (rule nd_setattr_plain [OF assms(4)])
  have g1: "getattr a ''_ndarray_listener__notify'' ?h1 = None"
    using assms(1,6,7) by (simp add: getattr_def map_of_other)
  have g2: "getattr a ''_listeners'' ?h1 = Some (ListRef r)"
    using assms(1,2,5) by (simp add: getattr_def map_of_other)
  have c: "list_all callable (lsts ?h1 ! r)"
    using assms(3) by simp
  show ?thesis
    using assms(1) by (simp add: setattr_then_notify [OF n assms(5) g1 g2 c] asarray_def)
qed



lemma subscribe_write_shared:
  assumes "getattr x ''_listeners'' g = Some (ListRef r)"
    and "getattr y ''_listeners'' g = Some (ListRef r)"
    and "r < length (lsts g)"
    and "list_all callable (lsts g ! r)" and "callable l"
    and "nd_setitem idx val (objs g ! y) (bufs g) = Inr bs"
  shows "subscribe_write x l y idx val g =
     (Inr (), g\<lparr>lsts := (lsts g)[r := lsts g ! r @ [l]], bufs := bs,
        calls := calls g @ map (\<lambda>k. (k, nd_read bs (objs g ! y))) (lsts g ! r @ [l])\<rparr>)"
proof -
  let ?g1 = "g\<lparr>lsts := (lsts g)[r := lsts g ! r @ [l]]\<rparr>"
  have t: "talk_to x l g = (Inr (), ?g1)"
    by (rule talk_to_eq [OF assms(1)])
  have w: "nd_setitem idx val (objs ?g1 ! y) (bufs ?g1) = Inr bs"
    using assms(6) by simp
  have gy: "getattr y ''_listeners'' ?g1 = Some (ListRef r)"
    using assms(2) by simp
  have c: "list_all callable (lsts ?g1 ! r)"
    using assms(3,4,5) by simp
  show ?thesis
    using assms(3) by (simp add: subscribe_write_def seq_def t setitem_notifies [OF w gy c])
qed

lemma subscribe_write_apart:
  assumes "getattr x ''_listeners'' g = Some (ListRef r')"
    and "getattr y ''_listeners'' g = Some (ListRef r)"
    and "r' \<noteq> r"
    and "list_all callable (lsts g ! r)"
    and "nd_setitem idx val (objs g ! y) (bufs g) = Inr bs"
  shows "subscribe_write x l y idx val g =
     (Inr (), g\<lparr>lsts := (lsts g)[r' := lsts g ! r' @ [l]], bufs := bs,
        calls := calls g @ map (\<lambda>k. (k, nd_read bs (objs g ! y))) (lsts g ! r)\<rparr>)"
proof -
  let ?g1 = "g\<lparr>lsts := (lsts g)[r' := lsts g ! r' @ [l]]\<rparr>"
  have t: "talk_to x l g = (Inr (), ?g1)"
    by (rule talk_to_eq [OF assms(1)])
  have w: "nd_setitem idx val (objs ?g1 ! y) (bufs ?g1) = Inr bs"
    using assms(5) by simp
  have gy: "getattr y ''_listeners'' ?g1 = Some (ListRef r)"
    using assms(2) by simp
  have c: "list_all callable (lsts ?g1 ! r)"
    using assms(3,4) by simp
  show ?thesis
    using assms(3) by (simp add: subscribe_write_def seq_def t setitem_notifies [OF w gy c])
qed

lemma derived_shares:
  assumes "getitem a (Slice lo hi) h = (Inr d, g) \<or> ndl_new (Ref a) h = (Inr d, g) \<or>
      copy a h = (Inr d, g)"
    and "a < length (objs h)"
    and "getattr a ''_listeners'' h = Some (ListRef r)"
  shows "d = length (objs h) \<and> lsts g = lsts h @ [[]] \<and> calls g = calls h \<and>
    getattr d ''_listeners'' g = Some (ListRef r) \<and>
    getattr a ''_listeners'' g = Some (ListRef r) \<and> objs g ! a = objs h ! a"
  using assms(1)
proof (elim disjE)
  assume v: "getitem a (Slice lo hi) h = (Inr d, g)"
  show ?thesis
  proof (cases "sel (objs h ! a)")
    case (At p)
    then have "getitem a (Slice lo hi) h = (Inl IndexError, h)"
      by (simp add: getitem_def nd_getitem_def seq_def)
    then show ?thesis using v by simp
  next
    case (Span ps)
    show ?thesis
      using v assms(2,3) unfolding getitem_slice_eq [OF Span]
      by (auto simp: getattr_def nth_append)
  qed
next
  assume "ndl_new (Ref a) h = (Inr d, g)"
  then show ?thesis
    using assms(2,3) unfolding ndl_new_Ref_eq [OF assms(3,2)]
    by (auto simp: getattr_def nth_append)
next
  assume "copy a h = (Inr d, g)"
  then show ?thesis
    using assms(2,3) unfolding copy_eq
    by (auto simp: getattr_def nth_append)
qed

text \<open>
  C3.  Let \<open>d\<close> be obtained from an instance \<open>a\<close> by the constructor, by a slice
  (\<^verbatim>\<open>a[lo:hi]\<close>, in particular \<^verbatim>\<open>a[:]\<close>) or by \<^verbatim>\<open>copy\<close>.  Each of the three succeeds, and
  afterwards \<^verbatim>\<open>_listeners\<close> of \<open>d\<close> and of \<open>a\<close> refer to the same list object.  So a
  listener subscribed through \<open>a\<close> is called, after the listeners that were there
  already, by a write through \<open>d\<close>, and a listener subscribed through \<open>d\<close> by a write
  through \<open>a\<close>.
\<close>

theorem derived_arrays_share_listeners:
  assumes "getitem a (Slice lo hi) h = (Inr d, g) \<or> ndl_new (Ref a) h = (Inr d, g) \<or>
      copy a h = (Inr d, g)"
    and "a < length (objs h)"
    and "getattr a ''_listeners'' h = Some (ListRef r)"
    and "r < length (lsts h)"
    and "list_all callable (lsts h ! r)" and "callable l"
  shows "fst (ndl_new (Ref a) h) = Inr (length (objs h)) \<and>
    fst (copy a h) = Inr (length (objs h)) \<and>
    (sel (objs h ! a) = Span ps \<longrightarrow> fst (getitem a (Slice lo hi) h) = Inr (length (objs h))) \<and>
    getattr d ''_listeners'' g = Some (ListRef r) \<and>
    getattr a ''_listeners'' g = Some (ListRef r) \<and>
    (nd_setitem idx val (objs g ! d) (bufs g) = Inr bs \<longrightarrow>
       subscribe_write a l d idx val g =
         (Inr (), g\<lparr>lsts := (lsts g)[r := lsts h ! r @ [l]], bufs := bs,
            calls := calls h @ map (\<lambda>k. (k, nd_read bs (objs g ! d))) (lsts h ! r @ [l])\<rparr>)) \<and>
    (nd_setitem idx' val' (objs g ! a) (bufs g) = Inr bs' \<longrightarrow>
       subscribe_write d l a idx' val' g =
         (Inr (), g\<lparr>lsts := (lsts g)[r := lsts h ! r @ [l]], bufs := bs',
            calls := calls h @ map (\<lambda>k. (k, nd_read bs' (objs g ! a))) (lsts h ! r @ [l])\<rparr>))"
proof -
  note f = derived_shares [OF assms(1,2,3)]
  have gd: "getattr d ''_listeners'' g = Some (ListRef r)"
    and ga: "getattr a ''_listeners'' g = Some (ListRef r)"
    using f by blast+
  have l: "lsts g ! r = lsts h ! r" "r < length (lsts g)" "calls g = calls h"
    using f assms(4) by (auto simp: nth_append)
  have c: "list_all callable (lsts g ! r)"
    using assms(5) l by simp
  have p1: "fst (ndl_new (Ref a) h) = Inr (length (objs h))"
    by (simp add: ndl_new_Ref_eq [OF assms(3,2)])
  have p2: "fst (copy a h) = Inr (length (objs h))"
    by (simp add: copy_eq)
  have p3: "sel (objs h ! a) = Span ps \<longrightarrow>
      fst (getitem a (Slice lo hi) h) = Inr (length (objs h))"
    by (simp add: getitem_slice_eq)
  have p4: "nd_setitem idx val (objs g ! d) (bufs g) = Inr bs \<longrightarrow>
       subscribe_write a l d idx val g =
         (Inr (), g\<lparr>lsts := (lsts g)[r := lsts h ! r @ [l]], bufs := bs,
            calls := calls h @ map (\<lambda>k. (k, nd_read bs (objs g ! d))) (lsts h ! r @ [l])\<rparr>)"
    using subscribe_write_shared [OF ga gd l(2) c assms(6)] l by simp
  have p5: "nd_setitem idx' val' (objs g ! a) (bufs g) = Inr bs' \<longrightarrow>
       subscribe_write d l a idx' val' g =
         (Inr (), g\<lparr>lsts := (lsts g)[r := lsts h ! r @ [l]], bufs := bs',
            calls := calls h @ map (\<lambda>k. (k, nd_read bs' (objs g ! a))) (lsts h ! r @ [l])\<rparr>)"
    using subscribe_write_shared [OF gd ga l(2) c assms(6)] l by simp
  show ?thesis using p1 p2 p3 gd ga p4 p5 by blast
qed


lemma demo_view_built: "getitem 0 (Slice (Some 1) None) demo_heap = (Inr 1, demo_view)"
proof -
  have s: "sel (objs demo_heap ! 0) = Span [0, 1, 2]"
    by (simp add: demo_heap_def)
  show ?thesis
    unfolding getitem_slice_eq [OF s]
    by (simp add: demo_heap_def demo_view_def getattr_def slice_sel_def slice_bound_def)
qed

lemma demo_copy_built: "copy 0 demo_heap = (Inr 1, demo_copy)"
  unfolding copy_eq
  by (simp add: demo_heap_def demo_copy_def getattr_def contents_def asarray_def nd_read_def
      upt_rec [of 0] upt_rec [of 1] upt_rec [of 2] upt_rec [of 3])

lemma demo_len: "0 < length (objs demo_heap)" "1 < length (lsts demo_heap)"
  "list_all callable (lsts demo_heap ! 1)"
  by (simp_all add: demo_heap_def)

theorem derived_arrays_share_listeners_witness:
  "getitem 0 (Slice (Some 1) None) demo_heap = (Inr 1, demo_view) \<and>
   0 < length (objs demo_heap) \<and>
   getattr 0 ''_listeners'' demo_heap = Some (ListRef 1) \<and>
   1 < length (lsts demo_heap) \<and>
   list_all callable (lsts demo_heap ! 1) \<and> callable (Watcher 5) \<and>
   sel (objs demo_heap ! 0) = Span [0, 1, 2] \<and>
   getattr 1 ''_listeners'' demo_view = Some (ListRef 1) \<and>
   nd_setitem (Idx 0) (Zero 9) (objs demo_view ! 1) (bufs demo_view) = Inr [[1, 9, 3]] \<and>
   calls (snd (subscribe_write 0 (Watcher 5) 1 (Idx 0) (Zero 9) demo_view)) =
     [(Watcher 0, One [9, 3]), (Watcher 5, One [9, 3])] \<and>
   nd_setitem (Idx 0) (Zero 9) (objs demo_view ! 0) (bufs demo_view) = Inr [[9, 2, 3]] \<and>
   calls (snd (subscribe_write 1 (Watcher 5) 0 (Idx 0) (Zero 9) demo_view)) =
     [(Watcher 0, One [9, 2, 3]), (Watcher 5, One [9, 2, 3])]"
proof -
  have d: "getitem 0 (Slice (Some 1) None) demo_heap = (Inr 1, demo_view) \<or>
      ndl_new (Ref 0) demo_heap = (Inr 1, demo_view) \<or> copy 0 demo_heap = (Inr 1, demo_view)"
    using demo_view_built by simp
  have c: "callable (Watcher 5)" by simp
  have s: "sel (objs demo_heap ! 0) = Span [0, 1, 2]"
    by (simp add: demo_heap_def)
  have w1: "nd_setitem (Idx 0) (Zero 9) (objs demo_view ! 1) (bufs demo_view) = Inr [[1, 9, 3]]"
    by (simp add: demo_view_def nd_setitem_def norm_index_def)
  have w2: "nd_setitem (Idx 0) (Zero 9) (objs demo_view ! 0) (bufs demo_view) = Inr [[9, 2, 3]]"
    by (simp add: demo_view_def nd_setitem_def norm_index_def)
  note t = derived_arrays_share_listeners [OF d demo_len(1) demo_getattr demo_len(2,3) c,
      where ps = "[0, 1, 2]" and idx = "Idx 0" and val = "Zero 9" and bs = "[[1, 9, 3]]"
      and idx' = "Idx 0" and val' = "Zero 9" and bs' = "[[9, 2, 3]]"]
  have r1: "nd_read [[1, 9, 3]] (objs demo_view ! Suc 0) = One [9, 3]"
    "nd_read [[9, 2, 3]] (objs demo_view ! 0) = One [9, 2, 3]"
    by (simp_all add: demo_view_def nd_read_def)
  have l: "calls demo_heap = []" "length (objs demo_heap) = Suc 0"
    by (simp_all add: demo_heap_def)
  show ?thesis
    using demo_view_built demo_len demo_getattr s w1 w2 t
    by (simp add: r1 l demo_lsts)
qed

text \<open>
  C1, as the code has it.  \<^verbatim>\<open>ndarray.copy\<close> hands the new instance to
  \<^verbatim>\<open>__array_finalize__\<close>, which assigns the list object of the original, not a copy of
  it.  The scenario of the class's own doctest shows the consequence: a listener
  subscribed on the copy only, after the copy was made, is called by a write to the
  original.  The four calls are those that the doctest prints.
\<close>

theorem copy_listeners_not_independent:
  "calls (snd (doctest_scalar empty_heap)) =
     [(Watcher 0, Zero 1), (Watcher 0, Zero 5), (Watcher 0, Zero 0), (Watcher 1, Zero 0)]"
  by code_simp

text \<open>
  C1, amended.  A copy \<open>b\<close> of \<open>a\<close> has a buffer of its own with the contents of \<open>a\<close>,
  and its \<^verbatim>\<open>_listeners\<close> refers to the list object of \<open>a\<close>.  A write to \<open>b\<close> calls the
  listeners that \<open>a\<close> had; a listener subscribed on \<open>b\<close> after the copy is called by a
  later write to \<open>a\<close>, and a listener subscribed on \<open>a\<close> after the copy by a later write
  to \<open>b\<close>.
\<close>

theorem copy_shares_listeners:
  assumes "copy a h = (Inr b, g)"
    and "a < length (objs h)"
    and "getattr a ''_listeners'' h = Some (ListRef r)"
    and "r < length (lsts h)"
    and "list_all callable (lsts h ! r)" and "callable l"
  shows "bufs g = bufs h @ [contents h (objs h ! a)] \<and>
    buf (objs g ! b) = length (bufs h) \<and>
    getattr b ''_listeners'' g = Some (ListRef r) \<and>
    getattr a ''_listeners'' g = Some (ListRef r) \<and>
    (nd_setitem idx val (objs g ! b) (bufs g) = Inr bs \<longrightarrow>
       setitem b idx val g =
         (Inr (), g\<lparr>bufs := bs,
            calls := calls h @ map (\<lambda>k. (k, nd_read bs (objs g ! b))) (lsts h ! r)\<rparr>) \<and>
       subscribe_write a l b idx val g =
         (Inr (), g\<lparr>lsts := (lsts g)[r := lsts h ! r @ [l]], bufs := bs,
            calls := calls h @ map (\<lambda>k. (k, nd_read bs (objs g ! b))) (lsts h ! r @ [l])\<rparr>)) \<and>
    (nd_setitem idx' val' (objs g ! a) (bufs g) = Inr bs' \<longrightarrow>
       subscribe_write b l a idx' val' g =
         (Inr (), g\<lparr>lsts := (lsts g)[r := lsts h ! r @ [l]], bufs := bs',
            calls := calls h @ map (\<lambda>k. (k, nd_read bs' (objs g ! a))) (lsts h ! r @ [l])\<rparr>))"
proof -
  have d: "getitem a (Slice None None) h = (Inr b, g) \<or> ndl_new (Ref a) h = (Inr b, g) \<or>
      copy a h = (Inr b, g)"
    using assms(1) by simp
  note f = derived_shares [OF d assms(2,3)]
  have gb: "getattr b ''_listeners'' g = Some (ListRef r)"
    and ga: "getattr a ''_listeners'' g = Some (ListRef r)"
    using f by blast+
  have l: "lsts g ! r = lsts h ! r" "r < length (lsts g)" "calls g = calls h"
    using f assms(4) by (auto simp: nth_append)
  have c: "list_all callable (lsts g ! r)"
    using assms(5) l by simp
  have p1: "bufs g = bufs h @ [contents h (objs h ! a)]"
    and p2: "buf (objs g ! b) = length (bufs h)"
    using assms(1) unfolding copy_eq by auto
  have p3: "nd_setitem idx val (objs g ! b) (bufs g) = Inr bs \<longrightarrow>
       setitem b idx val g =
         (Inr (), g\<lparr>bufs := bs,
            calls := calls h @ map (\<lambda>k. (k, nd_read bs (objs g ! b))) (lsts h ! r)\<rparr>) \<and>
       subscribe_write a l b idx val g =
         (Inr (), g\<lparr>lsts := (lsts g)[r := lsts h ! r @ [l]], bufs := bs,
            calls := calls h @ map (\<lambda>k. (k, nd_read bs (objs g ! b))) (lsts h ! r @ [l])\<rparr>)"
    using setitem_notifies [OF _ gb c, of idx val bs]
      subscribe_write_shared [OF ga gb l(2) c assms(6), of idx val bs] l by simp
  have p4: "nd_setitem idx' val' (objs g ! a) (bufs g) = Inr bs' \<longrightarrow>
       subscribe_write b l a idx' val' g =
         (Inr (), g\<lparr>lsts := (lsts g)[r := lsts h ! r @ [l]], bufs := bs',
            calls := calls h @ map (\<lambda>k. (k, nd_read bs' (objs g ! a))) (lsts h ! r @ [l])\<rparr>)"
    using subscribe_write_shared [OF gb ga l(2) c assms(6)] l by simp
  show ?thesis using p1 p2 gb ga p3 p4 by blast
qed

theorem copy_shares_listeners_witness:
  "copy 0 demo_heap = (Inr 1, demo_copy) \<and>
   0 < length (objs demo_heap) \<and>
   getattr 0 ''_listeners'' demo_heap = Some (ListRef 1) \<and>
   1 < length (lsts demo_heap) \<and>
   list_all callable (lsts demo_heap ! 1) \<and> callable (Watcher 5) \<and>
   getattr 1 ''_listeners'' demo_copy = Some (ListRef 1) \<and>
   nd_setitem (Idx 0) (Zero 9) (objs demo_copy ! 1) (bufs demo_copy) =
     Inr [[1, 2, 3], [9, 2, 3]] \<and>
   calls (snd (setitem 1 (Idx 0) (Zero 9) demo_copy)) = [(Watcher 0, One [9, 2, 3])] \<and>
   calls (snd (subscribe_write 0 (Watcher 5) 1 (Idx 0) (Zero 9) demo_copy)) =
     [(Watcher 0, One [9, 2, 3]), (Watcher 5, One [9, 2, 3])] \<and>
   nd_setitem (Idx 1) (Zero 9) (objs demo_copy ! 0) (bufs demo_copy) =
     Inr [[1, 9, 3], [1, 2, 3]] \<and>
   calls (snd (subscribe_write 1 (Watcher 5) 0 (Idx 1) (Zero 9) demo_copy)) =
     [(Watcher 0, One [1, 9, 3]), (Watcher 5, One [1, 9, 3])]"
proof -
  have c: "callable (Watcher 5)" by simp
  have w1: "nd_setitem (Idx 0) (Zero 9) (objs demo_copy ! 1) (bufs demo_copy) =
      Inr [[1, 2, 3], [9, 2, 3]]"
    by (simp add: demo_copy_def nd_setitem_def norm_index_def)
  have w2: "nd_setitem (Idx 1) (Zero 9) (objs demo_copy ! 0) (bufs demo_copy) =
      Inr [[1, 9, 3], [1, 2, 3]]"
    by (simp add: demo_copy_def nd_setitem_def norm_index_def)
  note t = copy_shares_listeners [OF demo_copy_built demo_len(1) demo_getattr demo_len(2,3) c,
      where idx = "Idx 0" and val = "Zero 9" and bs = "[[1, 2, 3], [9, 2, 3]]"
      and idx' = "Idx 1" and val' = "Zero 9" and bs' = "[[1, 9, 3], [1, 2, 3]]"]
  have r1: "nd_read [[1, 2, 3], [9, 2, 3]] (objs demo_copy ! Suc 0) = One [9, 2, 3]"
    "nd_read [[1, 9, 3], [1, 2, 3]] (objs demo_copy ! 0) = One [1, 9, 3]"
    by (simp_all add: demo_copy_def nd_read_def)
  have l: "calls demo_heap = []" "length (objs demo_heap) = Suc 0"
    by (simp_all add: demo_heap_def)
  show ?thesis
    using demo_copy_built demo_len demo_getattr w1 w2 t
    by (simp add: r1 l demo_lsts)
qed

lemma itemset_notifies:
  assumes "nd_itemset pos v (objs h ! a) (bufs h) = Inr bs"
    and "getattr a ''_listeners'' h = Some (ListRef r)"
    and "list_all callable (lsts h ! r)"
  shows "itemset a pos v h =
     (Inr (), h\<lparr>bufs := bs,
        calls := calls h @ map (\<lambda>l. (l, nd_read bs (objs h ! a))) (lsts h ! r)\<rparr>)"
proof -
  have g: "getattr a ''_listeners'' (h\<lparr>bufs := bs\<rparr>) = Some (ListRef r)"
    using assms(2) by simp
  show ?thesis
    using assms(3) by (simp add: itemset_ok [OF assms(1)] notify_eq [OF g] takeWhile_all asarray_def)
qed

lemma nd_read_same_buf:
  "bs ! buf ob = bs' ! buf ob \<Longrightarrow> nd_read bs ob = nd_read bs' ob"
  by (simp add: nd_read_def split: view.splits)

lemma extracted_facts:
  assumes "getitem a (Idx i) h = (res, g)"
    and "a < length (objs h)" and "sel (objs h ! a) = Span ps"
    and "- int (length ps) \<le> i" and "i < int (length ps)"
    and "getattr a ''_listeners'' h = Some (ListRef r)"
    and "r < length (lsts h)"
  shows "res = Inr (length (objs h))"
    and "bufs g = bufs h @ [[bufs h ! buf (objs h ! a) !
           (ps ! nat (if i < 0 then i + int (length ps) else i))]]"
    and "lsts g = lsts h @ [[], lsts h ! r]"
    and "objs g = objs h @ [\<lparr>buf = length (bufs h), sel = At 0,
           dict = [(''_listeners'', ListRef (Suc (length (lsts h))))]\<rparr>]"
    and "calls g = calls h"
  using assms(1)
  unfolding getitem_Idx_eq [OF assms(3) norm_index_in [OF assms(4,5)] assms(6,2,7)]
  by auto

lemma extracted_itemset:
  assumes "bufs g = bufs h @ [[e]]"
    and "lsts g = lsts h @ [[], lsts h ! r]"
    and "objs g = objs h @ [\<lparr>buf = length (bufs h), sel = At 0,
           dict = [(''_listeners'', ListRef (Suc (length (lsts h))))]\<rparr>]"
    and "calls g = calls h"
    and "list_all callable (lsts h ! r)"
  shows "itemset (length (objs h)) [] v g =
     (Inr (), g\<lparr>bufs := bufs h @ [[v]],
        calls := calls h @ map (\<lambda>k. (k, Zero v)) (lsts h ! r)\<rparr>)"
proof -
  let ?x = "length (objs h)"
  have w: "nd_itemset [] v (objs g ! ?x) (bufs g) = Inr (bufs h @ [[v]])"
    by (simp add: nd_itemset_def assms(1,3))
  have gx: "getattr ?x ''_listeners'' g = Some (ListRef (Suc (length (lsts h))))"
    by (simp add: getattr_def assms(3))
  have c: "list_all callable (lsts g ! Suc (length (lsts h)))"
    using assms(5) by (simp add: assms(2) nth_append)
  have r: "nd_read (bufs h @ [[v]]) (objs g ! ?x) = Zero v"
    by (simp add: nd_read_def assms(3))
  show ?thesis
    using itemset_notifies [OF w gx c] r
    by (simp add: assms(2,4) nth_append)
qed

lemma demo_item_built: "getitem 0 (Idx (- 1)) demo_heap = (Inr 1, demo_item)"
proof -
  have s: "sel (objs demo_heap ! 0) = Span [0, 1, 2]"
    by (simp add: demo_heap_def)
  have n: "norm_index (length [0, 1, 2 :: nat]) (- 1) = Inr 2"
    by (simp add: norm_index_def)
  show ?thesis
    unfolding getitem_Idx_eq [OF s n demo_getattr demo_len(1,2)]
    by (simp add: demo_heap_def demo_item_def)
qed

lemma demo_sel: "sel (objs demo_heap ! 0) = Span [0, 1, 2]"
  by (simp add: demo_heap_def)

lemma demo_range: "- int (length [0, 1, 2 :: nat]) \<le> - 1" "- 1 < int (length [0, 1, 2 :: nat])"
  by simp_all

text \<open>
  C4.  Let \<open>a\<close> be one-dimensional and \<open>i\<close> in range.  Then \<^verbatim>\<open>x = a[i]\<close> succeeds; \<open>x\<close> is a
  new zero-dimensional instance that holds the element, and its \<^verbatim>\<open>_listeners\<close> refers
  to a list object other than that of \<open>a\<close>, with the same entries in the same order.  A
  write to \<open>x\<close> calls each of them.  A listener subscribed on \<open>x\<close> afterwards goes to
  the list of \<open>x\<close> only: a later write to \<open>a\<close> calls the entries that the list of \<open>a\<close>
  had, and nothing more.
\<close>

theorem scalar_extraction_copies_listeners:
  assumes "getitem a (Idx i) h = (Inr x, g)"
    and "a < length (objs h)" and "sel (objs h ! a) = Span ps"
    and "- int (length ps) \<le> i" and "i < int (length ps)"
    and "getattr a ''_listeners'' h = Some (ListRef r)"
    and "r < length (lsts h)"
    and "list_all callable (lsts h ! r)"
  shows "fst (getitem a (Idx i) h) = Inr (length (objs h)) \<and>
    asarray g (objs g ! x) =
      Zero (contents h (objs h ! a) ! nat (if i < 0 then i + int (length ps) else i)) \<and>
    getattr x ''_listeners'' g = Some (ListRef (Suc (length (lsts h)))) \<and>
    getattr a ''_listeners'' g = Some (ListRef r) \<and>
    Suc (length (lsts h)) \<noteq> r \<and>
    lsts g ! Suc (length (lsts h)) = lsts h ! r \<and>
    lsts g ! r = lsts h ! r \<and>
    itemset x [] v g =
      (Inr (), g\<lparr>bufs := bufs h @ [[v]],
         calls := calls h @ map (\<lambda>k. (k, Zero v)) (lsts h ! r)\<rparr>) \<and>
    (nd_setitem idx val (objs g ! a) (bufs g) = Inr bs \<longrightarrow>
       subscribe_write x l a idx val g =
         (Inr (), g\<lparr>lsts := (lsts g)[Suc (length (lsts h)) := lsts h ! r @ [l]], bufs := bs,
            calls := calls h @ map (\<lambda>k. (k, nd_read bs (objs g ! a))) (lsts h ! r)\<rparr>))"
proof -
  let ?j = "nat (if i < 0 then i + int (length ps) else i)"
  let ?r' = "Suc (length (lsts h))"
  note f = extracted_facts [OF assms(1-7)]
  have x: "x = length (objs h)" using f(1) by simp
  have j: "?j < length ps"
    by (rule norm_index_less [OF norm_index_in [OF assms(4,5)]])
  have p1: "fst (getitem a (Idx i) h) = Inr (length (objs h))"
    using assms(1) x by simp
  have p2: "asarray g (objs g ! x) = Zero (contents h (objs h ! a) ! ?j)"
    using j by (simp add: x f asarray_def nd_read_def contents_def assms(3))
  have gx: "getattr x ''_listeners'' g = Some (ListRef ?r')"
    by (simp add: x f getattr_def)
  have ga: "getattr a ''_listeners'' g = Some (ListRef r)"
    using assms(2,6) by (simp add: f getattr_def nth_append)
  have ne: "?r' \<noteq> r" using assms(7) by simp
  have l1: "lsts g ! ?r' = lsts h ! r"
    by (simp add: f nth_append)
  have l2: "lsts g ! r = lsts h ! r"
    using assms(7) by (simp add: f nth_append)
  have p3: "itemset x [] v g =
      (Inr (), g\<lparr>bufs := bufs h @ [[v]],
         calls := calls h @ map (\<lambda>k. (k, Zero v)) (lsts h ! r)\<rparr>)"
    unfolding x by (rule extracted_itemset [OF f(2,3,4,5) assms(8)])
  have c: "list_all callable (lsts g ! r)"
    using assms(8) l2 by simp
  have p4: "nd_setitem idx val (objs g ! a) (bufs g) = Inr bs \<longrightarrow>
       subscribe_write x l a idx val g =
         (Inr (), g\<lparr>lsts := (lsts g)[?r' := lsts h ! r @ [l]], bufs := bs,
            calls := calls h @ map (\<lambda>k. (k, nd_read bs (objs g ! a))) (lsts h ! r)\<rparr>)"
    using subscribe_write_apart [OF gx ga ne c, of idx val bs l] l1 l2 f(5) by simp
  show ?thesis using p1 p2 gx ga ne l1 l2 p3 p4 by blast
qed

theorem scalar_extraction_copies_listeners_witness:
  "getitem 0 (Idx (- 1)) demo_heap = (Inr 1, demo_item) \<and>
   0 < length (objs demo_heap) \<and> sel (objs demo_heap ! 0) = Span [0, 1, 2] \<and>
   - int (length [0, 1, 2 :: nat]) \<le> - 1 \<and> - 1 < int (length [0, 1, 2 :: nat]) \<and>
   getattr 0 ''_listeners'' demo_heap = Some (ListRef 1) \<and>
   1 < length (lsts demo_heap) \<and> list_all callable (lsts demo_heap ! 1) \<and>
   asarray demo_item (objs demo_item ! 1) = Zero 3 \<and>
   getattr 1 ''_listeners'' demo_item = Some (ListRef 3) \<and>
   getattr 0 ''_listeners'' demo_item = Some (ListRef 1) \<and>
   lsts demo_item ! 3 = [Watcher 0] \<and>
   calls (snd (itemset 1 [] 7 demo_item)) = [(Watcher 0, Zero 7)] \<and>
   nd_setitem (Idx 0) (Zero 9) (objs demo_item ! 0) (bufs demo_item) = Inr [[9, 2, 3], [3]] \<and>
   calls (snd (subscribe_write 1 (Watcher 5) 0 (Idx 0) (Zero 9) demo_item)) =
     [(Watcher 0, One [9, 2, 3])]"
proof -
  have w: "nd_setitem (Idx 0) (Zero 9) (objs demo_item ! 0) (bufs demo_item) =
      Inr [[9, 2, 3], [3]]"
    by (simp add: demo_item_def nd_setitem_def norm_index_def)
  note t = scalar_extraction_copies_listeners [OF demo_item_built demo_len(1) demo_sel
      demo_range demo_getattr demo_len(2,3), where v = 7 and idx = "Idx 0" and val = "Zero 9"
      and bs = "[[9, 2, 3], [3]]" and l = "Watcher 5"]
  have c: "contents demo_heap (objs demo_heap ! 0) = [1, 2, 3]"
    by (simp add: demo_heap_def contents_def asarray_def nd_read_def)
  have r: "nd_read [[9, 2, 3], [3]] (objs demo_item ! 0) = One [9, 2, 3]"
    by (simp add: demo_item_def nd_read_def)
  have l: "calls demo_heap = []" "length (lsts demo_heap) = 2"
    "length (objs demo_heap) = Suc 0"
    by (simp_all add: demo_heap_def)
  show ?thesis
    using demo_item_built demo_len demo_sel demo_getattr w t
    by (auto simp: c r l demo_lsts numeral_3_eq_3)
qed

text \<open>
  C10.  With \<open>a\<close> and \<open>x = a[i]\<close> as before and \<open>a\<close> well formed, \<^verbatim>\<open>x.itemset(v)\<close>
  succeeds and leaves the contents of \<open>a\<close>, its \<^verbatim>\<open>_listeners\<close> reference and the list
  that it refers to as they were before the extraction.  Each listener copied at the
  extraction is called with the zero-dimensional array that holds \<open>v\<close>, the contents
  of \<open>x\<close> after the write.
\<close>

theorem extracted_scalar_write_leaves_source:
  assumes "getitem a (Idx i) h = (Inr x, g)"
    and "itemset x [] v g = (res, g')"
    and "a < length (objs h)" and "sel (objs h ! a) = Span ps"
    and "obj_ok h (objs h ! a)"
    and "- int (length ps) \<le> i" and "i < int (length ps)"
    and "getattr a ''_listeners'' h = Some (ListRef r)"
    and "r < length (lsts h)"
    and "list_all callable (lsts h ! r)"
  shows "res = Inr () \<and>
    contents g' (objs g' ! a) = contents h (objs h ! a) \<and>
    getattr a ''_listeners'' g' = Some (ListRef r) \<and>
    lsts g' ! r = lsts h ! r \<and>
    asarray g' (objs g' ! x) = Zero v \<and>
    calls g' = calls h @ map (\<lambda>k. (k, Zero v)) (lsts h ! r)"
proof -
  note f = extracted_facts [OF assms(1,3,4,6,7,8,9)]
  have x: "x = length (objs h)" using f(1) by simp
  have b: "buf (objs h ! a) < length (bufs h)"
    using assms(5) by (simp add: obj_ok_def)
  have i: "itemset x [] v g =
      (Inr (), g\<lparr>bufs := bufs h @ [[v]],
         calls := calls h @ map (\<lambda>k. (k, Zero v)) (lsts h ! r)\<rparr>)"
    unfolding x by (rule extracted_itemset [OF f(2,3,4,5) assms(10)])
  have g': "g' = g\<lparr>bufs := bufs h @ [[v]],
         calls := calls h @ map (\<lambda>k. (k, Zero v)) (lsts h ! r)\<rparr>"
    and p1: "res = Inr ()"
    using assms(2) i by simp_all
  have oa: "objs g' ! a = objs h ! a"
    using assms(3) by (simp add: g' f nth_append)
  have bb: "bufs g' ! buf (objs h ! a) = bufs h ! buf (objs h ! a)"
    using b by (simp add: g' nth_append)
  have p2: "contents g' (objs g' ! a) = contents h (objs h ! a)"
    unfolding oa contents_def asarray_def
    by (simp add: nd_read_same_buf [OF bb])
  have p3: "getattr a ''_listeners'' g' = Some (ListRef r)"
    using assms(8) oa by (simp add: getattr_def)
  have p4: "lsts g' ! r = lsts h ! r"
    using assms(9) by (simp add: g' f nth_append)
  have p5: "asarray g' (objs g' ! x) = Zero v"
    by (simp add: g' x f asarray_def nd_read_def)
  have p6: "calls g' = calls h @ map (\<lambda>k. (k, Zero v)) (lsts h ! r)"
    by (simp add: g')
  show ?thesis using p1 p2 p3 p4 p5 p6 by blast
qed


theorem extracted_scalar_write_leaves_source_witness:
  "getitem 0 (Idx (- 1)) demo_heap = (Inr 1, demo_item) \<and>
   itemset 1 [] 7 demo_item =
     (Inr (), demo_item\<lparr>bufs := [[1, 2, 3], [7]], calls := [(Watcher 0, Zero 7)]\<rparr>) \<and>
   0 < length (objs demo_heap) \<and> sel (objs demo_heap ! 0) = Span [0, 1, 2] \<and>
   obj_ok demo_heap (objs demo_heap ! 0) \<and>
   - int (length [0, 1, 2 :: nat]) \<le> - 1 \<and> - 1 < int (length [0, 1, 2 :: nat]) \<and>
   getattr 0 ''_listeners'' demo_heap = Some (ListRef 1) \<and>
   1 < length (lsts demo_heap) \<and> list_all callable (lsts demo_heap ! 1) \<and>
   contents (demo_item\<lparr>bufs := [[1, 2, 3], [7]], calls := [(Watcher 0, Zero 7)]\<rparr>)
     (objs demo_item ! 0) = [1, 2, 3]"
proof -
  have i: "itemset 1 [] 7 demo_item =
      (Inr (), demo_item\<lparr>bufs := [[1, 2, 3], [7]], calls := [(Watcher 0, Zero 7)]\<rparr>)"
  proof -
    have w: "nd_itemset [] 7 (objs demo_item ! 1) (bufs demo_item) = Inr [[1, 2, 3], [7]]"
      by (simp add: demo_item_def nd_itemset_def)
    have g: "getattr 1 ''_listeners'' demo_item = Some (ListRef 3)"
      by (simp add: demo_item_def getattr_def)
    have c: "list_all callable (lsts demo_item ! 3)"
      by (simp add: demo_item_def)
    show ?thesis
      unfolding itemset_notifies [OF w g c]
      by (simp add: demo_item_def nd_read_def)
  qed
  have k: "obj_ok demo_heap (objs demo_heap ! 0)"
    by (simp add: demo_heap_def obj_ok_def)
  note t = extracted_scalar_write_leaves_source [OF demo_item_built i demo_len(1) demo_sel k
      demo_range demo_getattr demo_len(2,3)]
  have c: "contents demo_heap (objs demo_heap ! 0) = [1, 2, 3]"
    by (simp add: demo_heap_def contents_def asarray_def nd_read_def)
  show ?thesis
    using demo_item_built i demo_len demo_sel k demo_getattr t
    by (simp add: c)
qed

end
